theory Spec2Isabelle
  imports Main
begin

section \<open>Values and exceptions\<close>

text \<open>
  Python objects that travel through the portal are abstracted to a small datatype.
  \<open>PyCoroutine\<close> stands for a coroutine object that is still bound to the local
  variable \<open>retval\<close> of \<open>_call_func\<close> when the \<open>await\<close> did not assign to it;
  \<open>PyPortal\<close> stands for the portal that \<open>start_blocking_portal\<close> hands over.
\<close>

datatype val = PyNone | PyInt int | PyCoroutine | PyPortal

text \<open>
  The exception classes the code distinguishes:
  \<^item> \<open>CancelledExc\<close>: the class returned by \<open>get_cancelled_exc_class()\<close>, the
    scheduler's own cancellation exception;
  \<^item> \<open>RuntimeError msg\<close>: the usage and protocol errors raised in \<open>from_thread.py\<close>;
  \<^item> \<open>OrdinaryError n\<close>: any other subclass of \<open>Exception\<close>;
  \<^item> \<open>BaseError n\<close>: a \<open>BaseException\<close> that is not an \<open>Exception\<close>
    (\<open>KeyboardInterrupt\<close>, \<open>SystemExit\<close>);
  \<^item> \<open>CancelledError\<close> and \<open>InvalidStateError\<close>: raised by
    \<open>concurrent.futures.Future\<close>;
  \<^item> \<open>AttributeError\<close>: reading an attribute that was never assigned;
  \<^item> \<open>FalsyError n\<close> and \<open>FalsyBaseError n\<close>: an instance of a subclass of
    \<open>Exception\<close>, and of \<open>BaseException\<close> only, whose class defines
    \<open>__bool__\<close> or \<open>__len__\<close> so that the object is false.
\<close>

datatype exc =
    CancelledExc
  | RuntimeError string
  | OrdinaryError nat
  | BaseError nat
  | CancelledError
  | InvalidStateError
  | AttributeError
  | FalsyError nat
  | FalsyBaseError nat

text \<open>\<open>isinstance(exc, Exception)\<close>. The scheduler's cancellation class derives from
  \<open>BaseException\<close> (asyncio since Python 3.8, trio).\<close>

fun isinstance_Exception :: "exc \<Rightarrow> bool" where
  "isinstance_Exception CancelledExc = False"
| "isinstance_Exception (BaseError n) = False"
| "isinstance_Exception (RuntimeError m) = True"
| "isinstance_Exception (OrdinaryError n) = True"
| "isinstance_Exception CancelledError = True"
| "isinstance_Exception InvalidStateError = True"
| "isinstance_Exception AttributeError = True"
| "isinstance_Exception (FalsyError n) = True"
| "isinstance_Exception (FalsyBaseError n) = False"

text \<open>The truth value of an exception object, as \<open>if exc:\<close> tests it: an object is
  true unless its class says otherwise, and no built-in exception class does.\<close>

fun truth_value :: "exc \<Rightarrow> bool" where
  "truth_value (FalsyError n) = False"
| "truth_value (FalsyBaseError n) = False"
| "truth_value CancelledExc = True"
| "truth_value (RuntimeError m) = True"
| "truth_value (OrdinaryError n) = True"
| "truth_value (BaseError n) = True"
| "truth_value CancelledError = True"
| "truth_value InvalidStateError = True"
| "truth_value AttributeError = True"

section \<open>concurrent.futures.Future\<close>

text \<open>
  The future of the standard library (Python 3.8 and later), with the five states of
  \<open>concurrent.futures._base\<close>. The slots \<open>_result\<close> and \<open>_exception\<close> are
  written only on the transition to \<open>FINISHED\<close>, one of them, so the finished state
  carries the value or the exception that was set. Done-callbacks are closures in the
  source; the two closures that \<open>from_thread.py\<close> registers are the constructors of
  \<open>callback\<close>: the \<open>callback\<close> of \<open>_call_func\<close> (closing over its cancel
  scope) and the \<open>task_done\<close> of \<open>start_task\<close> (closing over
  \<open>task_status_future\<close>).
\<close>

datatype fstate =
  PENDING | RUNNING | CANCELLED | CANCELLED_AND_NOTIFIED | FINISHED "exc + val"

datatype callback = CallFuncCallback nat | TaskDoneCallback nat

record future =
  fstate :: fstate
  done_callbacks :: "callback list"

definition Future :: future where
  "Future = \<lparr>fstate = PENDING, done_callbacks = []\<rparr>"

definition finished :: "future \<Rightarrow> bool" where
  "finished f = (case fstate f of FINISHED _ \<Rightarrow> True | _ \<Rightarrow> False)"

definition cancelled :: "future \<Rightarrow> bool" where
  "cancelled f = (fstate f = CANCELLED \<or> fstate f = CANCELLED_AND_NOTIFIED)"

definition is_done :: "future \<Rightarrow> bool" where
  "is_done f = (fstate f = CANCELLED \<or> fstate f = CANCELLED_AND_NOTIFIED \<or> finished f)"

text \<open>\<open>Future.cancel()\<close> without the callbacks: the new future, the value returned,
  and whether the call made the transition (so that the callbacks are to be invoked).\<close>

definition cancel_raw :: "future \<Rightarrow> future \<times> bool \<times> bool" where
  "cancel_raw f =
     (if fstate f = RUNNING \<or> finished f then (f, False, False)
      else if fstate f = CANCELLED \<or> fstate f = CANCELLED_AND_NOTIFIED then (f, True, False)
      else (f\<lparr>fstate := CANCELLED\<rparr>, True, True))"

text \<open>\<open>Future.set_result\<close> and \<open>Future.set_exception\<close> without the callbacks:
  \<open>InvalidStateError\<close> on a future that is already done.\<close>

definition set_result_raw :: "future \<Rightarrow> val \<Rightarrow> exc + future" where
  "set_result_raw f v =
     (if is_done f then Inl InvalidStateError
      else Inr (f\<lparr>fstate := FINISHED (Inr v)\<rparr>))"

definition set_exception_raw :: "future \<Rightarrow> exc \<Rightarrow> exc + future" where
  "set_exception_raw f e =
     (if is_done f then Inl InvalidStateError
      else Inr (f\<lparr>fstate := FINISHED (Inl e)\<rparr>))"

text \<open>\<open>Future.exception()\<close> on a future that is done: \<open>CancelledError\<close> when
  cancelled, else the stored exception or \<open>None\<close>.\<close>

definition exception :: "future \<Rightarrow> exc + exc option" where
  "exception f =
     (if cancelled f then Inl CancelledError
      else (case fstate f of FINISHED (Inl e) \<Rightarrow> Inr (Some e) | _ \<Rightarrow> Inr None))"

text \<open>\<open>Future.result()\<close>. The call blocks while the future is not done: \<open>None\<close> is
  "still blocked". On a done future it raises \<open>CancelledError\<close>, re-raises the stored
  exception, or returns the stored value.\<close>

definition result :: "future \<Rightarrow> (exc + val) option" where
  "result f =
     (if cancelled f then Some (Inl CancelledError)
      else (case fstate f of FINISHED r \<Rightarrow> Some r | _ \<Rightarrow> None))"

text \<open>\<open>Future.set_running_or_notify_cancel()\<close>.\<close>

definition set_running_or_notify_cancel :: "future \<Rightarrow> exc + (future \<times> bool)" where
  "set_running_or_notify_cancel f =
     (if fstate f = CANCELLED then Inr (f\<lparr>fstate := CANCELLED_AND_NOTIFIED\<rparr>, False)
      else if fstate f = PENDING then Inr (f\<lparr>fstate := RUNNING\<rparr>, True)
      else Inl (RuntimeError ''Future in unexpected state''))"

section \<open>Callables, coroutines and the state of the portal\<close>

text \<open>
  A coroutine is a resumption: it returns, raises, or reaches a suspension point.
  At \<open>Checkpoint k kc\<close> the scheduler either resumes the body normally (\<open>k\<close>) or
  throws its cancellation exception into it (\<open>kc\<close>, typically \<open>Raise CancelledExc\<close>).
  \<open>Started v k\<close> is a call of \<open>task_status.started(v)\<close> in the body, and
  \<open>SleepUntilStopped k kc\<close> is \<open>await portal.sleep_until_stopped()\<close>, and
  \<open>StopPortal b k\<close> is \<open>await portal.stop(b)\<close>, whose body has no suspension point.
\<close>

datatype coro =
    Return val
  | Raise exc
  | Checkpoint coro coro
  | Started val coro
  | SleepUntilStopped coro coro
  | StopPortal bool coro

text \<open>The callables handed to the portal in this file: a plain function returning a
  value, a function that raises, a coroutine function, and the bound methods
  \<open>scope.cancel\<close>, \<open>self._exit_event.set\<close>, \<open>portal.stop\<close> and
  \<open>self.run_async_cm\<close> (of the adapter with the given address) that the module itself
  submits.\<close>

datatype func =
    PlainFunc val
  | RaisingFunc exc
  | CoroFunc coro
  | ScopeCancel nat
  | EventSet nat
  | PortalStop bool
  | RunAsyncCM nat

text \<open>
  An asynchronous context manager is its two coroutine functions; \<open>__aexit__\<close>
  receives the exception information (\<open>None\<close> for \<open>(None, None, None)\<close>).
  \<open>_BlockingAsyncContextManager\<close> has four attributes that are only assigned later,
  in \<open>__enter__\<close>, \<open>run_async_cm\<close> and \<open>__exit__\<close>.
\<close>

record async_cm =
  aenter :: coro
  aexit :: "exc option \<Rightarrow> coro"

record adapter =
  async_cm :: async_cm
  enter_future :: "nat option"
  exit_future :: "nat option"
  exit_event :: "nat option"
  exit_exc_info :: "exc option option"

text \<open>Where the coroutine \<open>run_async_cm\<close> stands when it is suspended: inside
  \<open>__aenter__\<close>, at \<open>self._exit_event.wait()\<close>, or inside \<open>__aexit__\<close>.\<close>

datatype cm_state = InAenter coro | AtExitWait | InAexit coro

text \<open>A task spawned in the portal's task group runs \<open>_call_func(func, args, kwargs,
  future)\<close>; \<open>kwargs\<close> holds at most \<open>task_status\<close>, the future behind it. A task
  that is blocked keeps the scope it runs in and what is left of its coroutine.\<close>

datatype tstate = NotStarted func | Blocked nat coro | BlockedCM nat nat cm_state

record task =
  tstate :: tstate
  tfuture :: nat
  tstatus :: "nat option"

text \<open>What the loop thread does to a cancel scope and to the coroutine awaited in it, in
  the order it happens.\<close>

datatype event = ScopeCancelEv nat | AwaitEv nat | ResumeEv nat | ThrowEv nat

text \<open>
  The state: a store of futures, the cancel scopes (\<open>cancel_called\<close> of each), the
  events, the adapters of \<open>wrap_async_context_manager\<close>, and the portal's fields
  \<open>_event_loop_thread_id\<close>, \<open>_stop_event\<close> and the cancel scope of
  \<open>_task_group\<close>. \<open>loop_thread\<close> is the thread that runs the event loop (what
  \<open>threading.get_ident()\<close> returns inside a task); \<open>tasks\<close> are the tasks of the
  task group that have not finished, and \<open>tg_errors\<close> the exceptions that left a task
  uncaught. \<open>trace\<close> records the events of the cancel scopes.
\<close>

record world =
  futures :: "nat \<Rightarrow> future"
  next_future :: nat
  scopes :: "nat \<Rightarrow> bool"
  next_scope :: nat
  events :: "nat \<Rightarrow> bool"
  next_event :: nat
  adapters :: "nat \<Rightarrow> adapter"
  next_adapter :: nat
  loop_thread :: nat
  event_loop_thread_id :: "nat option"
  stop_event :: bool
  tg_cancel_called :: bool
  tasks :: "task list"
  tg_errors :: "exc list"
  trace :: "event list"

text \<open>\<open>BlockingPortal.__init__\<close>, run in thread \<open>tid\<close>.\<close>

definition BlockingPortal :: "nat \<Rightarrow> world" where
  "BlockingPortal tid =
     \<lparr>futures = (\<lambda>_. Future), next_future = 0, scopes = (\<lambda>_. False), next_scope = 0,
      events = (\<lambda>_. False), next_event = 0,
      adapters = (\<lambda>_. \<lparr>async_cm = \<lparr>aenter = Return PyNone, aexit = (\<lambda>_. Return PyNone)\<rparr>,
                         enter_future = None, exit_future = None, exit_event = None,
                         exit_exc_info = None\<rparr>),
      next_adapter = 0, loop_thread = tid,
      event_loop_thread_id = Some tid, stop_event = False, tg_cancel_called = False,
      tasks = [], tg_errors = [], trace = []\<rparr>"

text \<open>\<open>BlockingPortal._check_running\<close>, called in thread \<open>tid\<close>.\<close>

definition check_running :: "world \<Rightarrow> nat \<Rightarrow> exc + unit" where
  "check_running w tid =
     (case event_loop_thread_id w of
        None \<Rightarrow> Inl (RuntimeError ''This portal is not running'')
      | Some l \<Rightarrow>
          if l = tid then
            Inl (RuntimeError ''This method cannot be called from the event loop thread'')
          else Inr ())"

text \<open>\<open>BlockingPortal.stop\<close>.\<close>

definition stop :: "world \<Rightarrow> bool \<Rightarrow> world" where
  "stop w cancel_remaining =
     (let w1 = w\<lparr>event_loop_thread_id := None\<rparr>;
          w2 = w1\<lparr>stop_event := True\<rparr>
      in if cancel_remaining then w2\<lparr>tg_cancel_called := True\<rparr> else w2)"

text \<open>Modelled from the spec: \<open>Event.wait\<close> of \<open>anyio._core._synchronization\<close> is not
  part of the sources. "\<open>wait()\<close> suspends the calling task until set": \<open>None\<close> is
  "suspended".\<close>

definition event_wait :: "bool \<Rightarrow> unit option" where
  "event_wait is_set = (if is_set then Some () else None)"

text \<open>\<open>BlockingPortal.sleep_until_stopped\<close>.\<close>

definition sleep_until_stopped :: "world \<Rightarrow> unit option" where
  "sleep_until_stopped w = event_wait (stop_event w)"

text \<open>Modelled from the spec: \<open>CancelScope.cancel\<close> of \<open>anyio._core._tasks\<close> is
  not part of the sources. The scope remembers that its cancellation was requested.\<close>

definition scope_cancel :: "world \<Rightarrow> nat \<Rightarrow> world" where
  "scope_cancel w sid =
     w\<lparr>scopes := (scopes w)(sid := True), trace := trace w @ [ScopeCancelEv sid]\<rparr>"

section \<open>Done-callbacks\<close>

text \<open>\<open>Future()\<close>: a new pending future, at the address returned.\<close>

definition new_future :: "world \<Rightarrow> world \<times> nat" where
  "new_future w =
     (let fid = next_future w
      in (w\<lparr>next_future := Suc fid, futures := (futures w)(fid := Future)\<rparr>, fid))"

text \<open>
  \<open>self.call(scope.cancel)\<close> as the callback of \<open>_call_func\<close> executes it in thread
  \<open>tid\<close>: \<open>call\<close> is \<open>start_task_soon(scope.cancel).result()\<close>, so
  \<open>_check_running\<close> comes first; then a fresh future is created, the task calls
  \<open>scope.cancel()\<close> on the loop (not a coroutine, so its value \<open>None\<close> is the
  result of the future), and the caller gets \<open>None\<close> back.
\<close>

definition call_scope_cancel :: "world \<Rightarrow> nat \<Rightarrow> nat \<Rightarrow> world \<times> (exc + val)" where
  "call_scope_cancel w tid sid =
     (case check_running w tid of
        Inl e \<Rightarrow> (w, Inl e)
      | Inr _ \<Rightarrow>
          (let (w1, fid) = new_future w;
               w2 = scope_cancel w1 sid;
               w3 = w2\<lparr>futures := (futures w2)
                       (fid := (futures w2 fid)\<lparr>fstate := FINISHED (Inr PyNone)\<rparr>)\<rparr>
           in (w3, Inr PyNone)))"

text \<open>The closure \<open>callback\<close> of \<open>_call_func\<close>, invoked in thread \<open>tid\<close> on future
  \<open>fid\<close>. \<open>Future._invoke_callbacks\<close> logs and drops an \<open>Exception\<close> raised by a
  callback, so the \<open>RuntimeError\<close> of \<open>_check_running\<close> goes nowhere.\<close>

definition callback :: "world \<Rightarrow> nat \<Rightarrow> nat \<Rightarrow> nat \<Rightarrow> world" where
  "callback w tid fid sid =
     (if cancelled (futures w fid) then fst (call_scope_cancel w tid sid) else w)"

text \<open>The closure \<open>task_done\<close> of \<open>start_task\<close>, invoked on the task's future
  \<open>fid\<close>; \<open>tsf\<close> is \<open>task_status_future\<close>, which never leaves \<open>start_task\<close>,
  so no callback is ever registered on it. \<open>elif future.exception():\<close> tests the
  truth value of what \<open>exception()\<close> returns: \<open>None\<close> is false, and so is a stored
  exception object that is false, which takes the \<open>else\<close> branch like a task that
  returned.\<close>

definition task_done :: "world \<Rightarrow> nat \<Rightarrow> nat \<Rightarrow> world" where
  "task_done w fid tsf =
     (let future = futures w fid; task_status_future = futures w tsf
      in if \<not> is_done task_status_future then
           if cancelled future then
             w\<lparr>futures := (futures w)(tsf := fst (cancel_raw task_status_future))\<rparr>
           else
             (case exception future of
                Inl _ \<Rightarrow> w
              | Inr x \<Rightarrow>
                  if (case x of None \<Rightarrow> False | Some e \<Rightarrow> truth_value e) then
                    (case x of
                       None \<Rightarrow> w
                     | Some e \<Rightarrow>
                         (case set_exception_raw task_status_future e of
                            Inr t \<Rightarrow> w\<lparr>futures := (futures w)(tsf := t)\<rparr>
                          | Inl _ \<Rightarrow> w))
                  else
                    (case set_exception_raw task_status_future
                            (RuntimeError ''Task exited without calling task_status.started()'') of
                       Inr t \<Rightarrow> w\<lparr>futures := (futures w)(tsf := t)\<rparr>
                     | Inl _ \<Rightarrow> w))
         else w)"

fun invoke_callback :: "nat \<Rightarrow> nat \<Rightarrow> world \<Rightarrow> callback \<Rightarrow> world" where
  "invoke_callback tid fid w (CallFuncCallback sid) = callback w tid fid sid"
| "invoke_callback tid fid w (TaskDoneCallback tsf) = task_done w fid tsf"

text \<open>\<open>Future._invoke_callbacks\<close>, in the thread that made the future done.\<close>

definition invoke_callbacks :: "world \<Rightarrow> nat \<Rightarrow> nat \<Rightarrow> world" where
  "invoke_callbacks w tid fid =
     foldl (invoke_callback tid fid) w (done_callbacks (futures w fid))"

text \<open>The methods of a future in the store, called in thread \<open>tid\<close>.\<close>

definition cancel :: "world \<Rightarrow> nat \<Rightarrow> nat \<Rightarrow> world \<times> bool" where
  "cancel w tid fid =
     (case cancel_raw (futures w fid) of
        (f, r, changed) \<Rightarrow>
          (let w1 = w\<lparr>futures := (futures w)(fid := f)\<rparr>
           in (if changed then invoke_callbacks w1 tid fid else w1, r)))"

definition set_result :: "world \<Rightarrow> nat \<Rightarrow> nat \<Rightarrow> val \<Rightarrow> exc + world" where
  "set_result w tid fid v =
     (case set_result_raw (futures w fid) v of
        Inl e \<Rightarrow> Inl e
      | Inr f \<Rightarrow> Inr (invoke_callbacks (w\<lparr>futures := (futures w)(fid := f)\<rparr>) tid fid))"

definition set_exception :: "world \<Rightarrow> nat \<Rightarrow> nat \<Rightarrow> exc \<Rightarrow> exc + world" where
  "set_exception w tid fid e =
     (case set_exception_raw (futures w fid) e of
        Inl x \<Rightarrow> Inl x
      | Inr f \<Rightarrow> Inr (invoke_callbacks (w\<lparr>futures := (futures w)(fid := f)\<rparr>) tid fid))"

definition add_done_callback :: "world \<Rightarrow> nat \<Rightarrow> nat \<Rightarrow> callback \<Rightarrow> world" where
  "add_done_callback w tid fid cb =
     (let f = futures w fid
      in if \<not> is_done f then
           w\<lparr>futures := (futures w)(fid := f\<lparr>done_callbacks := done_callbacks f @ [cb]\<rparr>)\<rparr>
         else invoke_callback tid fid w cb)"

text \<open>\<open>_BlockingPortalTaskStatus.started\<close>, called on the loop.\<close>

definition started :: "world \<Rightarrow> nat \<Rightarrow> val \<Rightarrow> exc + world" where
  "started w tsf v = set_result w (loop_thread w) tsf v"

section \<open>Running a coroutine inside a cancel scope\<close>

text \<open>
  Modelled from the spec: the scheduler and its cancel scopes are not part of the
  sources. A cancellation scope is "a scheduler-native region of code that can be
  cancelled, causing pending suspension points within it to unwind", and "the actual stop
  point is wherever the task's code next reaches a suspension point (cooperative)". A
  task of the portal runs in its own scope \<open>sid\<close>, inside the scope of the portal's
  task group: a cancellation of either is delivered at the task's suspension points.
\<close>

definition cancel_delivered :: "world \<Rightarrow> nat \<Rightarrow> bool" where
  "cancel_delivered w sid = (scopes w sid \<or> tg_cancel_called w)"

datatype outcome = Returned val | Raised exc

datatype run = Finished outcome | Suspended coro

text \<open>
  The loop thread runs the coroutine until it finishes or blocks in
  \<open>sleep_until_stopped\<close>. \<open>ts\<close> is the future behind the \<open>task_status\<close> keyword
  argument; without it (\<open>start_task_soon\<close> passes no keyword arguments) the function's
  default \<open>TASK_STATUS_IGNORED\<close> makes \<open>started\<close> do nothing. An
  \<open>InvalidStateError\<close> of \<open>_BlockingPortalTaskStatus.started\<close> ends the coroutine.
\<close>

fun run_coro :: "nat \<Rightarrow> nat option \<Rightarrow> coro \<Rightarrow> world \<Rightarrow> world \<times> run" where
  "run_coro sid ts (Return v) w = (w, Finished (Returned v))"
| "run_coro sid ts (Raise e) w = (w, Finished (Raised e))"
| "run_coro sid ts (Checkpoint k kc) w =
     (if cancel_delivered w sid then run_coro sid ts kc (w\<lparr>trace := trace w @ [ThrowEv sid]\<rparr>)
      else run_coro sid ts k (w\<lparr>trace := trace w @ [ResumeEv sid]\<rparr>))"
| "run_coro sid ts (Started v k) w =
     (case ts of
        None \<Rightarrow> run_coro sid ts k w
      | Some tsf \<Rightarrow>
          (case started w tsf v of
             Inl e \<Rightarrow> (w, Finished (Raised e))
           | Inr w' \<Rightarrow> run_coro sid ts k w'))"
| "run_coro sid ts (SleepUntilStopped k kc) w =
     (if cancel_delivered w sid then run_coro sid ts kc (w\<lparr>trace := trace w @ [ThrowEv sid]\<rparr>)
      else
        (case sleep_until_stopped w of
           Some _ \<Rightarrow> run_coro sid ts k (w\<lparr>trace := trace w @ [ResumeEv sid]\<rparr>)
         | None \<Rightarrow> (w, Suspended (SleepUntilStopped k kc))))"
| "run_coro sid ts (StopPortal b k) w = run_coro sid ts k (stop w b)"

text \<open>
  Modelled from the spec: \<open>CancelScope.__exit__\<close> of \<open>anyio._core._tasks\<close> is not
  part of the sources. A cancelled scope causes "pending suspension points within it to
  unwind": the unwinding ends where the scope ends. Leaving
  \<open>with CancelScope() as scope\<close>, the scope absorbs the cancellation exception that its
  own \<open>cancel()\<close> caused, unless the enclosing scope is cancelled too; the statement
  after the block then runs with \<open>retval\<close> still bound to the coroutine object. Every
  other outcome passes through.
\<close>

definition scope_exit :: "world \<Rightarrow> nat \<Rightarrow> outcome \<Rightarrow> outcome" where
  "scope_exit w sid oc =
     (if oc = Raised CancelledExc \<and> scopes w sid \<and> \<not> tg_cancel_called w
      then Returned PyCoroutine else oc)"

section \<open>The task body of the portal\<close>

datatype ret = Value val | Coroutine coro | AsyncCMCoroutine nat

text \<open>\<open>retval = func(*args, **kwargs)\<close>: the effect of the call and what it returns
  or raises. Calling a coroutine function runs nothing of its body.\<close>

fun apply_func :: "func \<Rightarrow> world \<Rightarrow> world \<times> (exc + ret)" where
  "apply_func (PlainFunc v) w = (w, Inr (Value v))"
| "apply_func (RaisingFunc e) w = (w, Inl e)"
| "apply_func (CoroFunc c) w = (w, Inr (Coroutine c))"
| "apply_func (ScopeCancel sid) w = (scope_cancel w sid, Inr (Value PyNone))"
| "apply_func (EventSet eid) w = (w\<lparr>events := (events w)(eid := True)\<rparr>, Inr (Value PyNone))"
| "apply_func (PortalStop b) w = (w, Inr (Coroutine (StopPortal b (Return PyNone))))"
| "apply_func (RunAsyncCM aid) w = (w, Inr (AsyncCMCoroutine aid))"

text \<open>
  Lines 170 to 174: the scope is entered, and either cancelled at once or tied to the
  future by the done-callback; then the coroutine is awaited.
\<close>

definition call_func_scope :: "world \<Rightarrow> nat \<Rightarrow> world \<times> nat" where
  "call_func_scope w fid =
     (let sid = next_scope w;
          w1 = w\<lparr>next_scope := Suc sid, scopes := (scopes w)(sid := False)\<rparr>;
          w2 = (if cancelled (futures w1 fid) then scope_cancel w1 sid
                else add_done_callback w1 (loop_thread w1) fid (CallFuncCallback sid))
      in (w2\<lparr>trace := trace w2 @ [AwaitEv sid]\<rparr>, sid))"

text \<open>
  The \<open>except\<close> and \<open>else\<close> clauses of the \<open>try\<close> statement, given what the
  \<open>try\<close> body did. The second component is the exception that leaves the task, if any:
  the re-raised base exception, or an \<open>InvalidStateError\<close> of the future raised inside
  a clause.
\<close>

definition call_func_finish :: "world \<Rightarrow> nat \<Rightarrow> outcome \<Rightarrow> world \<times> exc option" where
  "call_func_finish w fid oc =
     (case oc of
        Raised exc \<Rightarrow>
          if exc = CancelledExc then (fst (cancel w (loop_thread w) fid), None)
          else
            (case (if \<not> cancelled (futures w fid)
                   then set_exception w (loop_thread w) fid exc else Inr w) of
               Inl x \<Rightarrow> (w, Some x)
             | Inr w' \<Rightarrow> (w', if \<not> isinstance_Exception exc then Some exc else None))
      | Returned retval \<Rightarrow>
          if \<not> cancelled (futures w fid) then
            (case set_result w (loop_thread w) fid retval of
               Inl x \<Rightarrow> (w, Some x)
             | Inr w' \<Rightarrow> (w', None))
          else (w, None))"

text \<open>
  Modelled from the spec: the task group of \<open>anyio._core._tasks\<close> is not part of the
  sources. An exception that propagates out of a task is "fatal to the hosting task
  group": the group keeps it (its exit is "propagating the first unhandled error") and
  cancels its cancel scope, so that the remaining tasks and the host task unwind at their
  suspension points. The host task is suspended in the block of
  \<open>async with BlockingPortal()\<close> (in \<open>run_portal\<close>, at \<open>sleep_until_stopped\<close>);
  unwinding, it leaves the block through \<open>BlockingPortal.__aexit__\<close>, whose first
  statement is \<open>await self.stop()\<close>. In this schedule the host unwinds as soon as the
  task has failed. A task that ends without an exception leaves the group as it is.
\<close>

definition task_exit :: "world \<times> exc option \<Rightarrow> world" where
  "task_exit r =
     (case r of
        (w, None) \<Rightarrow> w
      | (w, Some e) \<Rightarrow>
          stop (w\<lparr>tg_errors := tg_errors w @ [e], tg_cancel_called := True\<rparr>) False)"

text \<open>The awaited coroutine in scope \<open>sid\<close>: run it; when it finishes, leave the scope and
  the \<open>try\<close> statement; when it blocks, the task stays in the task group.\<close>

definition await_coro :: "world \<Rightarrow> task \<Rightarrow> nat \<Rightarrow> coro \<Rightarrow> world \<times> task option" where
  "await_coro w t sid c =
     (case run_coro sid (tstatus t) c w of
        (w', Finished oc) \<Rightarrow>
          (task_exit (call_func_finish w' (tfuture t) (scope_exit w' sid oc)), None)
      | (w', Suspended c') \<Rightarrow> (w', Some (t\<lparr>tstate := Blocked sid c'\<rparr>)))"

section \<open>The coroutine of the context manager adapter\<close>

datatype cm_run = CMFinished outcome | CMSuspended cm_state

text \<open>\<open>return await self._async_cm.__aexit__(*self._exit_exc_info)\<close>, from where the
  coroutine \<open>c\<close> of \<open>__aexit__\<close> stands.\<close>

definition cm_aexit :: "world \<Rightarrow> nat \<Rightarrow> coro \<Rightarrow> world \<times> cm_run" where
  "cm_aexit w sid c =
     (case run_coro sid None c w of
        (w', Finished oc) \<Rightarrow> (w', CMFinished oc)
      | (w', Suspended c') \<Rightarrow> (w', CMSuspended (InAexit c')))"

text \<open>\<open>await self._exit_event.wait()\<close> and what follows it. A suspension point: a
  cancellation is delivered here.\<close>

definition cm_wait :: "world \<Rightarrow> nat \<Rightarrow> nat \<Rightarrow> world \<times> cm_run" where
  "cm_wait w sid aid =
     (case exit_event (adapters w aid) of
        None \<Rightarrow> (w, CMFinished (Raised AttributeError))
      | Some ev \<Rightarrow>
          if cancel_delivered w sid then
            (w\<lparr>trace := trace w @ [ThrowEv sid]\<rparr>, CMFinished (Raised CancelledExc))
          else
            (case event_wait (events w ev) of
               None \<Rightarrow> (w, CMSuspended AtExitWait)
             | Some _ \<Rightarrow>
                 (case exit_exc_info (adapters w aid) of
                    None \<Rightarrow> (w, CMFinished (Raised AttributeError))
                  | Some info \<Rightarrow> cm_aexit w sid (aexit (async_cm (adapters w aid)) info))))"

text \<open>The \<open>try\<close> statement of \<open>run_async_cm\<close>, from where the coroutine \<open>c\<close>
  of \<open>__aenter__\<close> stands: the outcome goes to \<open>_enter_future\<close>, and an exception
  is raised again.\<close>

definition cm_aenter :: "world \<Rightarrow> nat \<Rightarrow> nat \<Rightarrow> coro \<Rightarrow> world \<times> cm_run" where
  "cm_aenter w sid aid c =
     (case run_coro sid None c w of
        (w1, Suspended c') \<Rightarrow> (w1, CMSuspended (InAenter c'))
      | (w1, Finished oc) \<Rightarrow>
          (case enter_future (adapters w1 aid) of
             None \<Rightarrow> (w1, CMFinished (Raised AttributeError))
           | Some ef \<Rightarrow>
               (case oc of
                  Raised exc \<Rightarrow>
                    (case set_exception w1 (loop_thread w1) ef exc of
                       Inl x \<Rightarrow> (w1, CMFinished (Raised x))
                     | Inr w2 \<Rightarrow> (w2, CMFinished (Raised exc)))
                | Returned v \<Rightarrow>
                    (case set_result w1 (loop_thread w1) ef v of
                       Inl x \<Rightarrow> (w1, CMFinished (Raised x))
                     | Inr w2 \<Rightarrow> cm_wait w2 sid aid))))"

text \<open>\<open>_BlockingAsyncContextManager.run_async_cm\<close> from its first line, run in scope
  \<open>sid\<close> for the adapter at \<open>aid\<close>.\<close>

definition run_async_cm :: "world \<Rightarrow> nat \<Rightarrow> nat \<Rightarrow> world \<times> cm_run" where
  "run_async_cm w sid aid =
     (let ev = next_event w;
          w1 = w\<lparr>next_event := Suc ev, events := (events w)(ev := False),
                 adapters := (adapters w)(aid := (adapters w aid)\<lparr>exit_event := Some ev\<rparr>)\<rparr>
      in cm_aenter w1 sid aid (aenter (async_cm (adapters w1 aid))))"

definition cm_resume :: "world \<Rightarrow> nat \<Rightarrow> nat \<Rightarrow> cm_state \<Rightarrow> world \<times> cm_run" where
  "cm_resume w sid aid st =
     (case st of
        InAenter c \<Rightarrow> cm_aenter w sid aid c
      | AtExitWait \<Rightarrow> cm_wait w sid aid
      | InAexit c \<Rightarrow> cm_aexit w sid c)"

definition await_cm :: "task \<Rightarrow> nat \<Rightarrow> nat \<Rightarrow> world \<times> cm_run \<Rightarrow> world \<times> task option" where
  "await_cm t sid aid r =
     (case r of
        (w', CMFinished oc) \<Rightarrow>
          (task_exit (call_func_finish w' (tfuture t) (scope_exit w' sid oc)), None)
      | (w', CMSuspended st) \<Rightarrow> (w', Some (t\<lparr>tstate := BlockedCM sid aid st\<rparr>)))"

text \<open>\<open>_call_func\<close> for one task, from its start or from where it blocked.\<close>

definition call_func :: "world \<Rightarrow> task \<Rightarrow> world \<times> task option" where
  "call_func w t =
     (case tstate t of
        NotStarted func \<Rightarrow>
          (case apply_func func w of
             (w1, Inl e) \<Rightarrow> (task_exit (call_func_finish w1 (tfuture t) (Raised e)), None)
           | (w1, Inr (Value v)) \<Rightarrow>
               (task_exit (call_func_finish w1 (tfuture t) (Returned v)), None)
           | (w1, Inr (Coroutine c)) \<Rightarrow>
               (case call_func_scope w1 (tfuture t) of
                  (w2, sid) \<Rightarrow> await_coro w2 t sid c)
           | (w1, Inr (AsyncCMCoroutine aid)) \<Rightarrow>
               (case call_func_scope w1 (tfuture t) of
                  (w2, sid) \<Rightarrow> await_cm t sid aid (run_async_cm w2 sid aid)))
      | Blocked sid c \<Rightarrow> await_coro w t sid c
      | BlockedCM sid aid st \<Rightarrow> await_cm t sid aid (cm_resume w sid aid st))"

section \<open>The event loop\<close>

text \<open>
  Modelled from the spec: \<open>_spawn_task_from_thread\<close> raises \<open>NotImplementedError\<close>
  in this class and is supplied by the backend, which is not part of the sources. It
  "spawns a Task bound to [the future] inside the portal's task group"; the task runs
  \<open>_call_func(func, args, kwargs, future)\<close>.
\<close>

definition spawn_task_from_thread :: "world \<Rightarrow> func \<Rightarrow> nat option \<Rightarrow> nat \<Rightarrow> world" where
  "spawn_task_from_thread w func kwargs fid =
     w\<lparr>tasks := tasks w @ [\<lparr>tstate = NotStarted func, tfuture = fid, tstatus = kwargs\<rparr>]\<rparr>"

text \<open>One round of the loop: every task of the group runs, in the order of spawning,
  until it finishes or blocks; the blocked ones stay.\<close>

fun run_tasks :: "task list \<Rightarrow> world \<Rightarrow> world \<times> task list" where
  "run_tasks [] w = (w, [])"
| "run_tasks (t # ts) w =
     (case call_func w t of
        (w1, r) \<Rightarrow>
          (case run_tasks ts w1 of
             (w2, bs) \<Rightarrow> (w2, (case r of None \<Rightarrow> [] | Some b \<Rightarrow> [b]) @ bs)))"

definition run_round :: "world \<Rightarrow> world" where
  "run_round w = (case run_tasks (tasks w) (w\<lparr>tasks := []\<rparr>) of (w', bs) \<Rightarrow> w'\<lparr>tasks := bs\<rparr>)"

fun run_rounds :: "nat \<Rightarrow> world \<Rightarrow> world" where
  "run_rounds 0 w = w"
| "run_rounds (Suc n) w = run_rounds n (run_round w)"

text \<open>The loop left alone by the other threads. The stop event, the events and the
  cancellations are never taken back, so a task blocks at most three times (in
  \<open>sleep_until_stopped\<close> once, and the adapter's coroutine at its exit event and once
  more after it); a round in which no task moves is the last, so three rounds per task
  and one more leave only tasks that nothing will wake.\<close>

definition run_loop :: "world \<Rightarrow> world" where
  "run_loop w = run_rounds (Suc (3 * length (tasks w))) w"

text \<open>\<open>future.result()\<close> in a thread outside the loop: the thread blocks, the loop
  runs (in this schedule, until no task can go on) and the thread reads the future.
  \<open>None\<close>: the future is never resolved and the thread blocks for good.\<close>

definition result_blocking :: "world \<Rightarrow> nat \<Rightarrow> world \<times> (exc + val) option" where
  "result_blocking w fid = (let w' = run_loop w in (w', result (futures w' fid)))"

section \<open>The entry points of the portal\<close>

text \<open>\<open>BlockingPortal.start_task_soon\<close>, called in thread \<open>tid\<close>.\<close>

definition start_task_soon :: "world \<Rightarrow> nat \<Rightarrow> func \<Rightarrow> world \<times> (exc + nat)" where
  "start_task_soon w tid func =
     (case check_running w tid of
        Inl e \<Rightarrow> (w, Inl e)
      | Inr _ \<Rightarrow>
          (case new_future w of
             (w1, f) \<Rightarrow> (spawn_task_from_thread w1 func None f, Inr f)))"

text \<open>\<open>BlockingPortal.call\<close>: \<open>return self.start_task_soon(func, *args).result()\<close>.\<close>

definition call :: "world \<Rightarrow> nat \<Rightarrow> func \<Rightarrow> world \<times> (exc + val) option" where
  "call w tid func =
     (case start_task_soon w tid func of
        (w1, Inl e) \<Rightarrow> (w1, Some (Inl e))
      | (w1, Inr f) \<Rightarrow> result_blocking w1 f)"

text \<open>\<open>BlockingPortal.start_task\<close>: the pair of the task's future and the value waited
  for on \<open>task_status_future\<close>.\<close>

definition start_task :: "world \<Rightarrow> nat \<Rightarrow> func \<Rightarrow> world \<times> (exc + nat \<times> val) option" where
  "start_task w tid func =
     (case check_running w tid of
        Inl e \<Rightarrow> (w, Some (Inl e))
      | Inr _ \<Rightarrow>
          (case new_future w of
             (w1, task_status_future) \<Rightarrow>
               (case new_future w1 of
                  (w2, f) \<Rightarrow>
                    (let w3 = add_done_callback w2 tid f (TaskDoneCallback task_status_future);
                         w4 = spawn_task_from_thread w3 func (Some task_status_future) f
                     in (case result_blocking w4 task_status_future of
                           (w5, None) \<Rightarrow> (w5, None)
                         | (w5, Some (Inl e)) \<Rightarrow> (w5, Some (Inl e))
                         | (w5, Some (Inr v)) \<Rightarrow> (w5, Some (Inr (f, v))))))))"

section \<open>The synchronous side of the context manager adapter\<close>

text \<open>\<open>BlockingPortal.wrap_async_context_manager\<close>: a new
  \<open>_BlockingAsyncContextManager(cm, self)\<close>, at the address returned.\<close>

definition wrap_async_context_manager :: "world \<Rightarrow> async_cm \<Rightarrow> world \<times> nat" where
  "wrap_async_context_manager w cm =
     (let aid = next_adapter w
      in (w\<lparr>next_adapter := Suc aid,
            adapters := (adapters w)(aid := \<lparr>async_cm = cm, enter_future = None,
                         exit_future = None, exit_event = None, exit_exc_info = None\<rparr>)\<rparr>, aid))"

text \<open>\<open>_BlockingAsyncContextManager.__enter__\<close>, called in thread \<open>tid\<close>.\<close>

definition cm_enter :: "world \<Rightarrow> nat \<Rightarrow> nat \<Rightarrow> world \<times> (exc + val) option" where
  "cm_enter w tid aid =
     (case new_future w of
        (w1, ef) \<Rightarrow>
          (let w2 = w1\<lparr>adapters := (adapters w1)(aid := (adapters w1 aid)\<lparr>enter_future := Some ef\<rparr>)\<rparr>
           in (case start_task_soon w2 tid (RunAsyncCM aid) of
                 (w3, Inl e) \<Rightarrow> (w3, Some (Inl e))
               | (w3, Inr xf) \<Rightarrow>
                   result_blocking
                     (w3\<lparr>adapters := (adapters w3)(aid := (adapters w3 aid)\<lparr>exit_future := Some xf\<rparr>)\<rparr>)
                     ef)))"

text \<open>\<open>_BlockingAsyncContextManager.__exit__\<close>, called in thread \<open>tid\<close> with the
  exception information \<open>info\<close>.\<close>

definition cm_exit :: "world \<Rightarrow> nat \<Rightarrow> nat \<Rightarrow> exc option \<Rightarrow> world \<times> (exc + val) option" where
  "cm_exit w tid aid info =
     (let w1 = w\<lparr>adapters := (adapters w)(aid := (adapters w aid)\<lparr>exit_exc_info := Some info\<rparr>)\<rparr>
      in (case exit_event (adapters w1 aid) of
            None \<Rightarrow> (w1, Some (Inl AttributeError))
          | Some ev \<Rightarrow>
              (case call w1 tid (EventSet ev) of
                 (w2, None) \<Rightarrow> (w2, None)
               | (w2, Some (Inl e)) \<Rightarrow> (w2, Some (Inl e))
               | (w2, Some (Inr _)) \<Rightarrow>
                   (case exit_future (adapters w2 aid) of
                      None \<Rightarrow> (w2, Some (Inl AttributeError))
                    | Some xf \<Rightarrow> result_blocking w2 xf))))"

section \<open>The portal in a thread of its own\<close>

text \<open>
  The hosting thread runs \<open>run_portal\<close> on a new event loop. Given the shared future as
  the launching thread left it, \<open>run_portal_start\<close> is the coroutine up to
  \<open>sleep_until_stopped\<close>: the portal is created and entered in thread \<open>lt\<close>, and the
  future is resolved with it unless it was cancelled. The boolean tells whether the
  coroutine goes on to sleep.
\<close>

definition run_portal_start :: "nat \<Rightarrow> future \<Rightarrow> exc + (world \<times> future \<times> bool)" where
  "run_portal_start lt fut =
     (case set_running_or_notify_cancel fut of
        Inl e \<Rightarrow> Inl e
      | Inr (fut1, True) \<Rightarrow>
          (case set_result_raw fut1 PyPortal of
             Inl e \<Rightarrow> Inl e
           | Inr fut2 \<Rightarrow> Inr (BlockingPortal lt, fut2, True))
      | Inr (fut1, False) \<Rightarrow> Inr (BlockingPortal lt, fut1, False))"

text \<open>
  Modelled from the spec: the task group and \<open>_eventloop.run\<close> are not part of the
  sources. The task group's exit is "joining all spawned tasks, propagating the first
  unhandled error". \<open>run_portal_exit\<close> is the hosting thread from
  \<open>sleep_until_stopped\<close> (when \<open>sleeping\<close>) through \<open>BlockingPortal.__aexit__\<close>
  to the end of the thread: \<open>None\<close> when the thread never ends, else the final state and
  the exception that \<open>run_future\<close> holds.
\<close>

definition run_portal_exit :: "world \<Rightarrow> bool \<Rightarrow> (world \<times> exc option) option" where
  "run_portal_exit w sleeping =
     (case (if sleeping then sleep_until_stopped w else Some ()) of
        None \<Rightarrow> None
      | Some _ \<Rightarrow>
          (let w1 = stop w False; w2 = run_loop w1
           in if tasks w2 = [] then
                Some (w2, (case tg_errors w2 of [] \<Rightarrow> None | e # _ \<Rightarrow> Some e))
              else None))"

text \<open>
  How the race of \<open>wait(..., return_when=FIRST_COMPLETED)\<close> ends: the portal's future
  is resolved, the hosting thread has ended with an error before that, or \<open>wait\<close>
  itself is interrupted in the launching thread while both futures are pending.
\<close>

datatype startup = PortalReady | RunFailed exc | WaitInterrupted exc

text \<open>What the caller of \<open>start_blocking_portal\<close> sees when the context manager is
  left: the state of the portal (if one was created), the exception raised (if any), and
  that the hosting thread has ended.\<close>

datatype thread_state = Alive | Terminated

record bootstrap =
  portal_world :: "world option"
  raised :: "exc option"
  hosting_thread :: thread_state

text \<open>Leaving \<open>with ThreadPoolExecutor(1) as executor\<close> with the exception \<open>r\<close> in
  flight: \<open>shutdown(wait=True)\<close> joins the hosting thread, then \<open>r\<close> is raised.\<close>

definition executor_exit :: "world \<Rightarrow> exc option \<Rightarrow> bootstrap option" where
  "executor_exit w r =
     (case run_portal_exit w True of
        None \<Rightarrow> None
      | Some (w', _) \<Rightarrow> Some \<lparr>portal_world = Some w', raised = r, hosting_thread = Terminated\<rparr>)"

text \<open>
  \<open>start_blocking_portal\<close> used as a context manager in thread \<open>tid\<close>, with the
  hosting thread \<open>lt\<close>. \<open>body\<close> is the block under \<open>with\<close>: what it does with the
  portal, and the exception it raises, if any. \<open>None\<close>: the context manager never
  returns.
\<close>

definition start_blocking_portal ::
  "nat \<Rightarrow> nat \<Rightarrow> startup \<Rightarrow> (world \<Rightarrow> world \<times> exc option) \<Rightarrow> bootstrap option" where
  "start_blocking_portal lt tid startup body =
     (case startup of
        WaitInterrupted e \<Rightarrow>
          (case run_portal_start lt (fst (cancel_raw Future)) of
             Inl x \<Rightarrow> Some \<lparr>portal_world = None, raised = Some e, hosting_thread = Terminated\<rparr>
           | Inr (w, _, sleeping) \<Rightarrow>
               (case run_portal_exit w sleeping of
                  None \<Rightarrow> None
                | Some (w', _) \<Rightarrow>
                    Some \<lparr>portal_world = Some w', raised = Some e, hosting_thread = Terminated\<rparr>))
      | RunFailed e \<Rightarrow>
          Some \<lparr>portal_world = None, raised = Some e, hosting_thread = Terminated\<rparr>
      | PortalReady \<Rightarrow>
          (case run_portal_start lt Future of
             Inl x \<Rightarrow> Some \<lparr>portal_world = None, raised = Some x, hosting_thread = Terminated\<rparr>
           | Inr (w0, fut, sleeping) \<Rightarrow>
               (case body w0 of
                  (w1, Some e) \<Rightarrow>
                    (case call w1 tid (PortalStop True) of
                       (w2, None) \<Rightarrow> None
                     | (w2, Some (Inl x)) \<Rightarrow> executor_exit w2 (Some x)
                     | (w2, Some (Inr _)) \<Rightarrow> executor_exit w2 (Some e))
                | (w1, None) \<Rightarrow>
                    (case call w1 tid (PortalStop False) of
                       (w2, None) \<Rightarrow> None
                     | (w2, Some (Inl x)) \<Rightarrow> executor_exit w2 (Some x)
                     | (w2, Some (Inr _)) \<Rightarrow>
                         (case run_portal_exit w2 sleeping of
                            None \<Rightarrow> None
                          | Some (w3, r) \<Rightarrow>
                              Some \<lparr>portal_world = Some w3, raised = r,
                                    hosting_thread = Terminated\<rparr>)))))"

section \<open>What never goes back\<close>

text \<open>
  \<open>advances w w'\<close>: the state \<open>w'\<close> is later than \<open>w\<close>. Futures are only
  added; the loop thread is the same; the portal, once stopped, stays stopped; the stop
  event and the cancellation of the task group are never taken back; and a future that
  is done never changes again.
\<close>

definition advances :: "world \<Rightarrow> world \<Rightarrow> bool" where
  "advances w w' \<longleftrightarrow>
     next_future w \<le> next_future w' \<and> loop_thread w' = loop_thread w
     \<and> (event_loop_thread_id w' = None \<or> event_loop_thread_id w' = event_loop_thread_id w)
     \<and> (stop_event w \<longrightarrow> stop_event w') \<and> (tg_cancel_called w \<longrightarrow> tg_cancel_called w')
     \<and> (\<forall>g. g < next_future w \<longrightarrow> is_done (futures w g) \<longrightarrow> futures w' g = futures w g)"

text \<open>
  \<open>calm w w'\<close>: from \<open>w\<close> to \<open>w'\<close> no cancellation was taken back and no coroutine
  was resumed normally.
\<close>

definition calm :: "world \<Rightarrow> world \<Rightarrow> bool" where
  "calm w w' \<longleftrightarrow>
     (\<forall>s. scopes w s \<longrightarrow> scopes w' s) \<and> (tg_cancel_called w \<longrightarrow> tg_cancel_called w')
     \<and> (\<forall>s. ResumeEv s \<in> set (trace w') \<longrightarrow> ResumeEv s \<in> set (trace w))"

section \<open>The specification of call\<close>

text \<open>
  Written from the words of the specification, to be compared with \<open>call\<close>:
  \<open>await_result\<close> "blocks the calling (external) thread until terminal state, then returns
  the value or re-raises the stored error; if cancelled, it raises a cancellation error",
  and \<open>call\<close> is \<open>start_task_soon(...).await_result()\<close>.
\<close>

definition await_result :: "world \<Rightarrow> nat \<Rightarrow> world \<times> (exc + val) option" where
  "await_result w fid =
     (let w' = run_loop w
      in (w', case fstate (futures w' fid) of
                FINISHED (Inr v) \<Rightarrow> Some (Inr v)
              | FINISHED (Inl e) \<Rightarrow> Some (Inl e)
              | CANCELLED \<Rightarrow> Some (Inl CancelledError)
              | CANCELLED_AND_NOTIFIED \<Rightarrow> Some (Inl CancelledError)
              | PENDING \<Rightarrow> None
              | RUNNING \<Rightarrow> None))"

definition call_spec :: "world \<Rightarrow> nat \<Rightarrow> func \<Rightarrow> world \<times> (exc + val) option" where
  "call_spec w tid func =
     (case start_task_soon w tid func of
        (w1, Inl e) \<Rightarrow> (w1, Some (Inl e))
      | (w1, Inr f) \<Rightarrow> await_result w1 f)"

section \<open>Who may touch a future\<close>

text \<open>
  A state is well formed when every future that a task, a \<open>task_done\<close> callback or an
  adapter refers to has been created: such are the states reached from a new portal
  through its methods, where a reference to a future is only made after \<open>Future()\<close>.
  A future is private in a state when only its own task refers to it, and \<open>leaves f\<close>
  says that a step keeps a private future private and as it is; a task is foreign to the
  future when it is not the future's own.
\<close>

definition private_future :: "nat \<Rightarrow> world \<Rightarrow> bool" where
  "private_future f w \<longleftrightarrow>
     f < next_future w
     \<and> (\<forall>h. TaskDoneCallback f \<notin> set (done_callbacks (futures w h)))
     \<and> (\<forall>a. enter_future (adapters w a) \<noteq> Some f)"

definition leaves :: "nat \<Rightarrow> world \<Rightarrow> world \<Rightarrow> bool" where
  "leaves f w w' \<longleftrightarrow> (private_future f w \<longrightarrow> private_future f w' \<and> futures w' f = futures w f)"

definition foreign :: "nat \<Rightarrow> task \<Rightarrow> bool" where
  "foreign f t \<longleftrightarrow> tfuture t \<noteq> f \<and> tstatus t \<noteq> Some f"

definition well_formed :: "world \<Rightarrow> bool" where
  "well_formed w \<longleftrightarrow>
     (\<forall>t\<in>set (tasks w). tfuture t < next_future w
        \<and> (\<forall>g. tstatus t = Some g \<longrightarrow> g < next_future w))
     \<and> (\<forall>h g. TaskDoneCallback g \<in> set (done_callbacks (futures w h)) \<longrightarrow> g < next_future w)
     \<and> (\<forall>a g. enter_future (adapters w a) = Some g \<longrightarrow> g < next_future w)"

text \<open>
  \<open>keeps_refs w w'\<close>: from \<open>w\<close> to \<open>w'\<close> futures were only added, no
  \<open>task_done\<close> callback was registered and no adapter got another enter future;
  \<open>same_refs\<close>: two tasks have the same future and the same \<open>task_status\<close>.
\<close>

definition keeps_refs :: "world \<Rightarrow> world \<Rightarrow> bool" where
  "keeps_refs w w' \<longleftrightarrow>
     next_future w \<le> next_future w'
     \<and> (\<forall>h g. TaskDoneCallback g \<in> set (done_callbacks (futures w' h)) \<longrightarrow>
            (\<exists>h'. TaskDoneCallback g \<in> set (done_callbacks (futures w h'))))
     \<and> (\<forall>a. enter_future (adapters w' a) = enter_future (adapters w a))"

definition same_refs :: "task \<Rightarrow> task \<Rightarrow> bool" where
  "same_refs b t \<longleftrightarrow> tfuture b = tfuture t \<and> tstatus b = tstatus t"

section \<open>Context managers that leave the portal alone\<close>

text \<open>
  The outcome of a coroutine that is resumed normally at every suspension point, for a
  coroutine that neither waits for the portal to stop nor stops it (\<open>None\<close> for one that
  does).
\<close>

fun plain_outcome :: "coro \<Rightarrow> outcome option" where
  "plain_outcome (Return v) = Some (Returned v)"
| "plain_outcome (Raise e) = Some (Raised e)"
| "plain_outcome (Checkpoint k kc) = plain_outcome k"
| "plain_outcome (Started v k) = plain_outcome k"
| "plain_outcome (SleepUntilStopped k kc) = None"
| "plain_outcome (StopPortal b k) = None"

text \<open>
  The adapter's task is the only task of the group and is suspended at
  \<open>self._exit_event.wait()\<close> in scope \<open>sid\<close>: the event \<open>ev\<close> is not set, the exit
  future \<open>xf\<close> is pending, and neither the task's scope nor the task group is cancelled.
\<close>

definition waiting_at_exit :: "world \<Rightarrow> nat \<Rightarrow> nat \<Rightarrow> nat \<Rightarrow> nat \<Rightarrow> bool" where
  "waiting_at_exit w aid sid xf ev \<longleftrightarrow>
     tasks w = [\<lparr>tstate = BlockedCM sid aid AtExitWait, tfuture = xf, tstatus = None\<rparr>]
     \<and> exit_future (adapters w aid) = Some xf \<and> exit_event (adapters w aid) = Some ev
     \<and> fstate (futures w xf) = PENDING \<and> xf < next_future w
     \<and> \<not> events w ev \<and> \<not> scopes w sid \<and> \<not> tg_cancel_called w"

section \<open>Every operation advances the state\<close>

lemma advances_refl [simp]: "advances w w" by (simp add: advances_def)

lemma advances_trans: "advances a b \<Longrightarrow> advances b c \<Longrightarrow> advances a c"
  unfolding advances_def by (metis (no_types, lifting) le_trans less_le_trans)

lemma adv_scope_cancel: "advances w (scope_cancel w sid)"
  by (simp add: advances_def scope_cancel_def)

lemma adv_new_future: "advances w (fst (new_future w))"
  by (simp add: advances_def new_future_def Let_def)

lemma adv_call_scope_cancel: "advances w (fst (call_scope_cancel w tid sid))"
  by (auto simp: advances_def call_scope_cancel_def new_future_def scope_cancel_def Let_def split: sum.splits)

lemma adv_callback: "advances w (callback w tid fid sid)"
  by (simp add: callback_def adv_call_scope_cancel)

lemma adv_task_done: "advances w (task_done w fid tsf)"
  by (auto simp: advances_def task_done_def Let_def cancel_raw_def set_exception_raw_def split: option.splits sum.splits)

lemma adv_invoke_callback: "advances w (invoke_callback tid fid w cb)"
  by (cases cb) (simp_all add: adv_callback adv_task_done)

lemma adv_foldl: "advances w (foldl (invoke_callback tid fid) w cbs)"
proof (induction cbs arbitrary: w)
  case Nil show ?case by simp
next
  case (Cons c cbs)
  show ?case using advances_trans[OF adv_invoke_callback Cons.IH] by simp
qed

lemma adv_invoke_callbacks: "advances w (invoke_callbacks w tid fid)"
  by (simp add: invoke_callbacks_def adv_foldl)

lemma adv_upd_notdone:
  "(is_done (futures w fid) \<Longrightarrow> f = futures w fid) \<Longrightarrow> advances w (w\<lparr>futures := (futures w)(fid := f)\<rparr>)"
  by (auto simp: advances_def)

lemma adv_cancel: "advances w (fst (cancel w tid fid))"
  unfolding cancel_def
  by (auto simp: cancel_raw_def is_done_def Let_def intro!: advances_trans[OF adv_upd_notdone adv_invoke_callbacks] adv_upd_notdone)

lemma adv_set_result: "set_result w tid fid v = Inr w' \<Longrightarrow> advances w w'"
  unfolding set_result_def set_result_raw_def
  by (auto split: if_splits intro!: advances_trans[OF adv_upd_notdone adv_invoke_callbacks])

lemma adv_set_exception: "set_exception w tid fid v = Inr w' \<Longrightarrow> advances w w'"
  unfolding set_exception_def set_exception_raw_def
  by (auto split: if_splits intro!: advances_trans[OF adv_upd_notdone adv_invoke_callbacks])

lemma adv_add_done_callback: "advances w (add_done_callback w tid fid cb)"
  unfolding add_done_callback_def Let_def
  by (auto intro!: adv_upd_notdone adv_invoke_callback)

lemma adv_stop: "advances w (stop w b)"
  by (simp add: advances_def stop_def Let_def)

lemma adv_trace: "advances w (w\<lparr>trace := t\<rparr>)" by (simp add: advances_def)

lemma adv_run_coro: "run_coro sid ts c w = (w', r) \<Longrightarrow> advances w w'"
proof (induction sid ts c w arbitrary: w' r rule: run_coro.induct)
  case (3 sid ts k kc w)
  then show ?case by (auto split: if_splits intro: advances_trans[OF adv_trace])
next
  case (4 sid ts v k w)
  then show ?case 
    by (auto simp: started_def split: option.splits sum.splits intro: advances_trans[OF adv_set_result])
next
  case (5 sid ts k kc w)
  then show ?case by (auto split: if_splits option.splits intro: advances_trans[OF adv_trace])
next
  case (6 sid ts b k w)
  then show ?case by (auto intro: advances_trans[OF adv_stop])
qed auto


lemma adv_scope_alloc: "advances w (w\<lparr>next_scope := a, scopes := b\<rparr>)"
  by (simp add: advances_def)

lemma adv_call_func_scope: "call_func_scope w fid = (w', sid) \<Longrightarrow> advances w w'"
proof -
  assume a: "call_func_scope w fid = (w', sid)"
  let ?w1 = "w\<lparr>next_scope := Suc (next_scope w), scopes := (scopes w)(next_scope w := False)\<rparr>"
  let ?w2 = "if cancelled (futures ?w1 fid) then scope_cancel ?w1 (next_scope w)
             else add_done_callback ?w1 (loop_thread ?w1) fid (CallFuncCallback (next_scope w))"
  have 1: "advances w ?w1" by (rule adv_scope_alloc)
  have 2: "advances ?w1 ?w2" using adv_scope_cancel adv_add_done_callback by presburger
  have 3: "w' = ?w2\<lparr>trace := trace ?w2 @ [AwaitEv (next_scope w)]\<rparr>"
    using a unfolding call_func_scope_def Let_def by auto
  show ?thesis unfolding 3 by (rule advances_trans[OF advances_trans[OF 1 2] adv_trace])
qed

lemma adv_call_func_finish: "call_func_finish w fid oc = (w', r) \<Longrightarrow> advances w w'"
  unfolding call_func_finish_def
  by (auto split: outcome.splits if_splits sum.splits
      intro: adv_set_result adv_set_exception adv_cancel)

lemma adv_tg_errors: "advances w (w\<lparr>tg_errors := t\<rparr>)" by (simp add: advances_def)

lemma adv_task_exit: "advances w (task_exit (w, r))"
  by (cases r) (simp_all add: task_exit_def advances_def stop_def Let_def)

lemma adv_finish_exit: "advances w (task_exit (call_func_finish w fid oc))"
proof -
  obtain w' r where f: "call_func_finish w fid oc = (w', r)" by (cases "call_func_finish w fid oc")
  show ?thesis unfolding f using advances_trans[OF adv_call_func_finish[OF f] adv_task_exit] .
qed

lemma adv_await_coro: "await_coro w t sid c = (w', r) \<Longrightarrow> advances w w'"
  unfolding await_coro_def
  by (auto split: prod.splits run.splits
      intro: advances_trans[OF adv_run_coro adv_finish_exit] adv_run_coro)

lemma adv_cm_aexit: "cm_aexit w sid c = (w', r) \<Longrightarrow> advances w w'"
  unfolding cm_aexit_def by (auto split: prod.splits run.splits intro: adv_run_coro)

lemma adv_cm_wait: "cm_wait w sid aid = (w', r) \<Longrightarrow> advances w w'"
  unfolding cm_wait_def
  by (auto split: option.splits if_splits intro: adv_cm_aexit adv_trace)

lemma adv_cm_aenter: "cm_aenter w sid aid c = (w', r) \<Longrightarrow> advances w w'"
  unfolding cm_aenter_def
  by (auto split: prod.splits run.splits option.splits outcome.splits sum.splits
      intro: adv_run_coro advances_trans[OF adv_run_coro adv_set_exception]
        advances_trans[OF adv_run_coro advances_trans[OF adv_set_result adv_cm_wait]])

lemma adv_event_alloc: "advances w (w\<lparr>next_event := a, events := b, adapters := c\<rparr>)"
  by (simp add: advances_def)

lemma adv_run_async_cm: "run_async_cm w sid aid = (w', r) \<Longrightarrow> advances w w'"
  unfolding run_async_cm_def Let_def
  by (rule advances_trans[OF adv_event_alloc adv_cm_aenter])

lemma adv_cm_resume: "cm_resume w sid aid st = (w', r) \<Longrightarrow> advances w w'"
  unfolding cm_resume_def
  by (auto split: cm_state.splits intro: adv_cm_aenter adv_cm_wait adv_cm_aexit)

lemma adv_await_cm: "advances w w1 \<Longrightarrow> await_cm t sid aid (w1, x) = (w', r) \<Longrightarrow> advances w w'"
  unfolding await_cm_def
  by (auto split: cm_run.splits intro: advances_trans[OF _ adv_finish_exit])

lemma adv_apply_func: "apply_func func w = (w', r) \<Longrightarrow> advances w w'"
  by (cases func) (auto simp: advances_def scope_cancel_def)

lemma adv_call_func: "call_func w t = (w', r) \<Longrightarrow> advances w w'"
proof (cases "tstate t")
  case (NotStarted func)
  assume a: "call_func w t = (w', r)"
  obtain w1 x where ap: "apply_func func w = (w1, x)" by (cases "apply_func func w")
  note 1 = adv_apply_func[OF ap]
  show ?thesis
  proof (cases x)
    case (Inl e)
    with a NotStarted ap have "w' = task_exit (call_func_finish w1 (tfuture t) (Raised e))"
      by (simp add: call_func_def)
    then show ?thesis using advances_trans[OF 1 adv_finish_exit] by simp
  next
    case (Inr rv)
    show ?thesis
    proof (cases rv)
      case (Value v)
      with a NotStarted ap Inr have "w' = task_exit (call_func_finish w1 (tfuture t) (Returned v))"
        by (simp add: call_func_def)
      then show ?thesis using advances_trans[OF 1 adv_finish_exit] by simp
    next
      case (Coroutine c)
      obtain w2 sid where sc: "call_func_scope w1 (tfuture t) = (w2, sid)"
        by (cases "call_func_scope w1 (tfuture t)")
      with a NotStarted ap Inr Coroutine have "await_coro w2 t sid c = (w', r)"
        by (simp add: call_func_def)
      then show ?thesis
        using advances_trans[OF 1 advances_trans[OF adv_call_func_scope[OF sc] adv_await_coro]] by simp
    next
      case (AsyncCMCoroutine aid)
      obtain w2 sid where sc: "call_func_scope w1 (tfuture t) = (w2, sid)"
        by (cases "call_func_scope w1 (tfuture t)")
      obtain w3 x3 where rc: "run_async_cm w2 sid aid = (w3, x3)" by (cases "run_async_cm w2 sid aid")
      from a NotStarted ap Inr AsyncCMCoroutine sc rc have "await_cm t sid aid (w3, x3) = (w', r)"
        by (simp add: call_func_def)
      then show ?thesis
        using adv_await_cm[OF advances_trans[OF 1 advances_trans[OF adv_call_func_scope[OF sc] adv_run_async_cm[OF rc]]]]
        by simp
    qed
  qed
next
  case (Blocked sid c)
  assume a: "call_func w t = (w', r)"
  with Blocked show ?thesis by (simp add: call_func_def adv_await_coro)
next
  case (BlockedCM sid aid st)
  assume a: "call_func w t = (w', r)"
  obtain w3 x3 where rc: "cm_resume w sid aid st = (w3, x3)" by (cases "cm_resume w sid aid st")
  from a BlockedCM rc have "await_cm t sid aid (w3, x3) = (w', r)" by (simp add: call_func_def)
  then show ?thesis using adv_await_cm[OF adv_cm_resume[OF rc]] by simp
qed

lemma adv_run_tasks: "run_tasks ts w = (w', bs) \<Longrightarrow> advances w w'"
proof (induction ts arbitrary: w w' bs)
  case Nil then show ?case by simp
next
  case (Cons t ts)
  obtain w1 r where c: "call_func w t = (w1, r)" by (cases "call_func w t")
  obtain w2 b2 where r: "run_tasks ts w1 = (w2, b2)" by (cases "run_tasks ts w1")
  from Cons.prems c r have "w' = w2" by simp
  then show ?case using advances_trans[OF adv_call_func[OF c] Cons.IH[OF r]] by simp
qed

lemma adv_tasks: "advances w (w\<lparr>tasks := t\<rparr>)" by (simp add: advances_def)

lemma adv_run_round: "advances w (run_round w)"
proof -
  obtain w' bs where r: "run_tasks (tasks w) (w\<lparr>tasks := []\<rparr>) = (w', bs)"
    by (cases "run_tasks (tasks w) (w\<lparr>tasks := []\<rparr>)")
  show ?thesis unfolding run_round_def r
    using advances_trans[OF adv_tasks advances_trans[OF adv_run_tasks[OF r] adv_tasks]] by simp
qed

lemma adv_run_rounds: "advances w (run_rounds n w)"
proof (induction n arbitrary: w)
  case 0 show ?case by simp
next
  case (Suc n)
  show ?case using advances_trans[OF adv_run_round Suc.IH] by simp
qed

lemma adv_run_loop: "advances w (run_loop w)"
  by (simp add: run_loop_def adv_run_rounds del: run_rounds.simps)

lemma adv_frozen:
  "advances w w' \<Longrightarrow> g < next_future w \<Longrightarrow> is_done (futures w g) \<Longrightarrow> futures w' g = futures w g"
  by (simp add: advances_def)

lemma adv_not_running:
  "advances w w' \<Longrightarrow> event_loop_thread_id w = None \<Longrightarrow> event_loop_thread_id w' = None"
  by (auto simp: advances_def)

lemma stop_fields:
  "event_loop_thread_id (stop w b) = None" "stop_event (stop w b)"
  "tg_cancel_called (stop w b) = (b \<or> tg_cancel_called w)"
  "tasks (stop w b) = tasks w" "scopes (stop w b) = scopes w" "futures (stop w b) = futures w"
  by (simp_all add: stop_def Let_def)

section \<open>Futures in the store\<close>

lemma invoke_callbacks_frozen:
  "fid < next_future w \<Longrightarrow> is_done (futures w fid) \<Longrightarrow>
   futures (invoke_callbacks w tid g) fid = futures w fid"
  by (rule adv_frozen[OF adv_invoke_callbacks])

lemma set_result_future:
  assumes "set_result w tid fid v = Inr w'" "fid < next_future w"
  shows "futures w' fid = (futures w fid)\<lparr>fstate := FINISHED (Inr v)\<rparr>"
  using assms unfolding set_result_def set_result_raw_def
  by (auto split: if_splits simp: invoke_callbacks_frozen is_done_def finished_def)

lemma set_exception_future:
  assumes "set_exception w tid fid e = Inr w'" "fid < next_future w"
  shows "futures w' fid = (futures w fid)\<lparr>fstate := FINISHED (Inl e)\<rparr>"
  using assms unfolding set_exception_def set_exception_raw_def
  by (auto split: if_splits simp: invoke_callbacks_frozen is_done_def finished_def)

lemma set_result_ok: "\<not> is_done (futures w fid) \<Longrightarrow> \<exists>w'. set_result w tid fid v = Inr w'"
  by (simp add: set_result_def set_result_raw_def)

lemma set_exception_ok: "\<not> is_done (futures w fid) \<Longrightarrow> \<exists>w'. set_exception w tid fid v = Inr w'"
  by (simp add: set_exception_def set_exception_raw_def)

lemma set_result_done: "is_done (futures w fid) \<Longrightarrow> set_result w tid fid v = Inl InvalidStateError"
  by (simp add: set_result_def set_result_raw_def)

lemma cancel_future_pending:
  assumes "fstate (futures w fid) = PENDING" "fid < next_future w"
  shows "futures (fst (cancel w tid fid)) fid = (futures w fid)\<lparr>fstate := CANCELLED\<rparr>"
  using assms unfolding cancel_def cancel_raw_def
  by (simp add: invoke_callbacks_frozen is_done_def finished_def)

lemma cancel_future_done:
  assumes "is_done (futures w fid)"
  shows "fst (cancel w tid fid) = w"
  using assms unfolding cancel_def cancel_raw_def is_done_def
  by (auto simp: finished_def)

lemma task_done_noop: "is_done (futures w tsf) \<Longrightarrow> task_done w fid tsf = w"
  by (simp add: task_done_def Let_def)

lemma invoke_callback_other:
  "cb \<noteq> TaskDoneCallback g \<Longrightarrow> g < next_future w \<Longrightarrow>
   futures (invoke_callback tid fid w cb) g = futures w g"
  by (cases cb)
     (auto simp: callback_def call_scope_cancel_def new_future_def scope_cancel_def Let_def
        task_done_def cancel_raw_def set_exception_raw_def
        split: sum.splits option.splits)

text \<open>What \<open>task_done\<close> leaves in \<open>task_status_future\<close>.\<close>

lemma task_done_tsf:
  "fstate (futures w tsf) = PENDING \<Longrightarrow> is_done (futures w fid) \<Longrightarrow>
   fstate (futures (task_done w fid tsf) tsf) =
     (if cancelled (futures w fid) then CANCELLED
      else (case fstate (futures w fid) of
              FINISHED (Inl e) \<Rightarrow>
                if truth_value e then FINISHED (Inl e)
                else FINISHED (Inl (RuntimeError ''Task exited without calling task_status.started()''))
            | _ \<Rightarrow> FINISHED (Inl (RuntimeError ''Task exited without calling task_status.started()''))))"
  by (auto simp: task_done_def Let_def is_done_def finished_def cancel_raw_def exception_def
      set_exception_raw_def cancelled_def split: fstate.splits sum.splits option.splits)

lemma task_done_next: "next_future (task_done w fid tsf) = next_future w"
  by (auto simp: task_done_def Let_def split: sum.splits option.splits)

lemma foldl_callbacks_task_done:
  assumes "TaskDoneCallback tsf \<in> set cbs" "fstate (futures w tsf) = PENDING"
    "is_done (futures w fid)" "tsf < next_future w" "fid < next_future w"
  shows "fstate (futures (foldl (invoke_callback tid fid) w cbs) tsf) =
         fstate (futures (task_done w fid tsf) tsf)"
  using assms
proof (induction cbs arbitrary: w)
  case Nil then show ?case by simp
next
  case (Cons c cs)
  show ?case
  proof (cases "c = TaskDoneCallback tsf")
    case True
    let ?w1 = "task_done w fid tsf"
    have d: "is_done (futures ?w1 tsf)"
      using task_done_tsf[OF Cons.prems(2,3)]
      by (auto simp: is_done_def finished_def split: if_splits fstate.splits sum.splits)
    have n: "tsf < next_future ?w1" using Cons.prems(4) by (simp add: task_done_next)
    show ?thesis using adv_frozen[OF adv_foldl n d] True by simp
  next
    case False
    let ?w1 = "invoke_callback tid fid w c"
    have a: "advances w ?w1" by (rule adv_invoke_callback)
    have 1: "futures ?w1 tsf = futures w tsf" using invoke_callback_other[OF False Cons.prems(4)] .
    have 2: "futures ?w1 fid = futures w fid" using adv_frozen[OF a Cons.prems(5,3)] .
    have 3: "tsf < next_future ?w1" "fid < next_future ?w1"
      using a Cons.prems(4,5) by (auto simp: advances_def)
    have m: "TaskDoneCallback tsf \<in> set cs" using Cons.prems(1) False by auto
    have "fstate (futures (foldl (invoke_callback tid fid) ?w1 cs) tsf) =
          fstate (futures (task_done ?w1 fid tsf) tsf)"
      using Cons.IH[OF m] 1 2 3 Cons.prems(2,3) by simp
    also have "\<dots> = fstate (futures (task_done w fid tsf) tsf)"
      using task_done_tsf[of ?w1 tsf fid] task_done_tsf[of w tsf fid] 1 2 Cons.prems(2,3) by simp
    finally show ?thesis by simp
  qed
qed

lemma notify_after_update:
  assumes "TaskDoneCallback tsf \<in> set (done_callbacks (futures w fid))"
    "fstate (futures w tsf) = PENDING" "tsf \<noteq> fid" "tsf < next_future w" "fid < next_future w"
    "is_done (f\<lparr>fstate := st\<rparr>)" "f = futures w fid"
  shows "fstate (futures (invoke_callbacks (w\<lparr>futures := (futures w)(fid := f\<lparr>fstate := st\<rparr>)\<rparr>) tid fid) tsf) =
         fstate (futures (task_done (w\<lparr>futures := (futures w)(fid := f\<lparr>fstate := st\<rparr>)\<rparr>) fid tsf) tsf)"
  unfolding invoke_callbacks_def
  by (rule foldl_callbacks_task_done) (use assms in auto)

lemma set_result_notifies:
  assumes "TaskDoneCallback tsf \<in> set (done_callbacks (futures w fid))"
    "fstate (futures w tsf) = PENDING" "tsf \<noteq> fid" "tsf < next_future w" "fid < next_future w"
    "\<not> is_done (futures w fid)"
  shows "\<exists>w'. set_result w tid fid v = Inr w' \<and> fstate (futures w' tsf) =
     FINISHED (Inl (RuntimeError ''Task exited without calling task_status.started()''))"
proof -
  let ?w1 = "w\<lparr>futures := (futures w)(fid := (futures w fid)\<lparr>fstate := FINISHED (Inr v)\<rparr>)\<rparr>"
  have d: "is_done ((futures w fid)\<lparr>fstate := FINISHED (Inr v)\<rparr>)" by (simp add: is_done_def finished_def)
  have e: "set_result w tid fid v = Inr (invoke_callbacks ?w1 tid fid)"
    using assms(6) by (simp add: set_result_def set_result_raw_def)
  have "fstate (futures (task_done ?w1 fid tsf) tsf) =
     FINISHED (Inl (RuntimeError ''Task exited without calling task_status.started()''))"
    by (subst task_done_tsf) (use assms(2,3) in \<open>auto simp: is_done_def finished_def cancelled_def\<close>)
  then show ?thesis
    using notify_after_update[OF assms(1-5) d refl, of tid] e by simp
qed

lemma set_exception_notifies:
  assumes "TaskDoneCallback tsf \<in> set (done_callbacks (futures w fid))"
    "fstate (futures w tsf) = PENDING" "tsf \<noteq> fid" "tsf < next_future w" "fid < next_future w"
    "\<not> is_done (futures w fid)"
  shows "\<exists>w'. set_exception w tid fid e = Inr w' \<and> fstate (futures w' tsf) =
     FINISHED (Inl (if truth_value e then e
                    else RuntimeError ''Task exited without calling task_status.started()''))"
proof -
  let ?w1 = "w\<lparr>futures := (futures w)(fid := (futures w fid)\<lparr>fstate := FINISHED (Inl e)\<rparr>)\<rparr>"
  have d: "is_done ((futures w fid)\<lparr>fstate := FINISHED (Inl e)\<rparr>)" by (simp add: is_done_def finished_def)
  have e: "set_exception w tid fid e = Inr (invoke_callbacks ?w1 tid fid)"
    using assms(6) by (simp add: set_exception_def set_exception_raw_def)
  have "fstate (futures (task_done ?w1 fid tsf) tsf) =
     FINISHED (Inl (if truth_value e then e
                    else RuntimeError ''Task exited without calling task_status.started()''))"
    by (subst task_done_tsf) (use assms(2,3) in \<open>auto simp: is_done_def finished_def cancelled_def\<close>)
  then show ?thesis
    using notify_after_update[OF assms(1-5) d refl, of tid] e by simp
qed

lemma cancel_notifies:
  assumes "TaskDoneCallback tsf \<in> set (done_callbacks (futures w fid))"
    "fstate (futures w tsf) = PENDING" "tsf \<noteq> fid" "tsf < next_future w" "fid < next_future w"
    "fstate (futures w fid) = PENDING"
  shows "fstate (futures (fst (cancel w tid fid)) tsf) = CANCELLED"
proof -
  let ?w1 = "w\<lparr>futures := (futures w)(fid := (futures w fid)\<lparr>fstate := CANCELLED\<rparr>)\<rparr>"
  have d: "is_done ((futures w fid)\<lparr>fstate := CANCELLED\<rparr>)" by (simp add: is_done_def finished_def)
  have e: "fst (cancel w tid fid) = invoke_callbacks ?w1 tid fid"
    using assms(6) by (simp add: cancel_def cancel_raw_def finished_def)
  have "fstate (futures (task_done ?w1 fid tsf) tsf) = CANCELLED"
    by (subst task_done_tsf) (use assms(2,3) in \<open>auto simp: is_done_def finished_def cancelled_def\<close>)
  then show ?thesis
    using notify_after_update[OF assms(1-5) d refl, of tid] e by simp
qed

section \<open>Stopping the portal\<close>

text \<open>
  Claim C6. \<open>stop(cancel_remaining)\<close> marks the portal as not running, so that every
  later submission through \<open>start_task_soon\<close>, \<open>call\<close> and \<open>start_task\<close> is
  rejected, also after the loop has gone on; it sets the stop event, so that
  \<open>sleep_until_stopped\<close> returns and a task suspended in it goes on; the cancel scope
  of the task group is cancelled exactly when \<open>cancel_remaining\<close> is true (or it was
  cancelled before); the tasks, their scopes and their futures are left as they are, so
  with \<open>cancel_remaining\<close> false no cancellation is delivered that was not already.
\<close>

theorem stop_marks_releases_cancels:
  "event_loop_thread_id (stop w b) = None
   \<and> start_task_soon (stop w b) tid func =
       (stop w b, Inl (RuntimeError ''This portal is not running''))
   \<and> call (stop w b) tid func =
       (stop w b, Some (Inl (RuntimeError ''This portal is not running'')))
   \<and> start_task (stop w b) tid func =
       (stop w b, Some (Inl (RuntimeError ''This portal is not running'')))
   \<and> event_loop_thread_id (run_loop (stop w b)) = None
   \<and> stop_event (stop w b)
   \<and> sleep_until_stopped (stop w b) = Some ()
   \<and> run_coro sid ts (SleepUntilStopped k kc) (stop w b) =
       (if cancel_delivered (stop w b) sid
        then run_coro sid ts kc ((stop w b)\<lparr>trace := trace (stop w b) @ [ThrowEv sid]\<rparr>)
        else run_coro sid ts k ((stop w b)\<lparr>trace := trace (stop w b) @ [ResumeEv sid]\<rparr>))
   \<and> tg_cancel_called (stop w b) = (b \<or> tg_cancel_called w)
   \<and> cancel_delivered (stop w b) sid = (b \<or> cancel_delivered w sid)
   \<and> tasks (stop w b) = tasks w \<and> scopes (stop w b) = scopes w
   \<and> futures (stop w b) = futures w"
proof -
  have nr: "event_loop_thread_id (run_loop (stop w b)) = None"
    by (rule adv_not_running[OF adv_run_loop]) (simp add: stop_fields)
  show ?thesis
    using nr
    by (auto simp add: stop_fields check_running_def start_task_soon_def call_def start_task_def
        sleep_until_stopped_def event_wait_def cancel_delivered_def)
qed

section \<open>Cancellation by the scheduler\<close>

text \<open>
  Claim C2. When the coroutine awaited in \<open>_call_func\<close> ends with the scheduler's
  cancellation exception, and the cancellation was not requested through the future (the
  future is still pending and the task's own scope was not cancelled), the exception
  reaches \<open>except self._cancelled_exc_class\<close>: the task ends without an error, and the
  future is cancelled, not finished with an error, so that \<open>result()\<close> and
  \<open>exception()\<close> of a waiting thread raise \<open>CancelledError\<close>.
\<close>

theorem scheduler_cancellation_cancels_future:
  assumes "run_coro sid (tstatus t) c w = (w1, Finished (Raised CancelledExc))"
    and "fstate (futures w1 (tfuture t)) = PENDING"
    and "tfuture t < next_future w1"
    and "\<not> scopes w1 sid"
  shows "\<exists>w'. await_coro w t sid c = (w', None)
           \<and> fstate (futures w' (tfuture t)) = CANCELLED
           \<and> result (futures w' (tfuture t)) = Some (Inl CancelledError)
           \<and> exception (futures w' (tfuture t)) = Inl CancelledError"
proof -
  let ?w' = "fst (cancel w1 (loop_thread w1) (tfuture t))"
  have 1: "await_coro w t sid c = (?w', None)"
    using assms(1,4) by (simp add: await_coro_def scope_exit_def call_func_finish_def task_exit_def)
  have 2: "fstate (futures ?w' (tfuture t)) = CANCELLED"
    using cancel_future_pending[OF assms(2,3)] by simp
  show ?thesis using 1 2 by (simp add: result_def exception_def cancelled_def)
qed

theorem scheduler_cancellation_cancels_future_witness:
  "\<exists>w'. await_coro (fst (new_future (BlockingPortal 0)))
           \<lparr>tstate = Blocked 0 (Raise CancelledExc), tfuture = 0, tstatus = None\<rparr> 0
           (Raise CancelledExc) = (w', None)
        \<and> fstate (futures w' 0) = CANCELLED
        \<and> result (futures w' 0) = Some (Inl CancelledError)
        \<and> exception (futures w' 0) = Inl CancelledError"
  using scheduler_cancellation_cancels_future
    [of 0 "\<lparr>tstate = Blocked 0 (Raise CancelledExc), tfuture = 0, tstatus = None\<rparr>"
        "Raise CancelledExc" "fst (new_future (BlockingPortal 0))" "fst (new_future (BlockingPortal 0))"]
  by (simp add: new_future_def BlockingPortal_def Future_def)

section \<open>Exceptions of the task\<close>

text \<open>
  Claim C3, as the code has it. An exception of the task other than the scheduler's
  cancellation exception is stored in the future by \<open>set_exception\<close> unless the future is
  cancelled, whether it is an \<open>Exception\<close> or not; the exception leaves
  \<open>_call_func\<close> exactly when it is not an \<open>Exception\<close>.
\<close>

theorem base_exception_stored_and_reraised:
  assumes "exc \<noteq> CancelledExc" and "\<not> finished (futures w fid)" and "fid < next_future w"
  shows "snd (call_func_finish w fid (Raised exc)) =
           (if isinstance_Exception exc then None else Some exc)
       \<and> fstate (futures (fst (call_func_finish w fid (Raised exc))) fid) =
           (if cancelled (futures w fid) then fstate (futures w fid) else FINISHED (Inl exc))"
proof (cases "cancelled (futures w fid)")
  case True
  then show ?thesis using assms(1) by (simp add: call_func_finish_def)
next
  case False
  then have nd: "\<not> is_done (futures w fid)" using assms(2) by (simp add: is_done_def cancelled_def)
  obtain w' where s: "set_exception w (loop_thread w) fid exc = Inr w'"
    using set_exception_ok[OF nd] by blast
  have "futures w' fid = (futures w fid)\<lparr>fstate := FINISHED (Inl exc)\<rparr>"
    using set_exception_future[OF s assms(3)] .
  then show ?thesis using assms(1) False s by (simp add: call_func_finish_def)
qed

theorem base_exception_stored_and_reraised_witness:
  "BaseError 0 \<noteq> CancelledExc \<and> \<not> finished (futures (fst (new_future (BlockingPortal 0))) 0)
   \<and> (0::nat) < next_future (fst (new_future (BlockingPortal 0)))
   \<and> snd (call_func_finish (fst (new_future (BlockingPortal 0))) 0 (Raised (BaseError 0))) =
        Some (BaseError 0)
   \<and> fstate (futures (fst (call_func_finish (fst (new_future (BlockingPortal 0))) 0
        (Raised (BaseError 0)))) 0) = FINISHED (Inl (BaseError 0))"
  using base_exception_stored_and_reraised [of "BaseError 0" "fst (new_future (BlockingPortal 0))" 0]
  by (simp add: new_future_def BlockingPortal_def Future_def finished_def cancelled_def)

text \<open>
  Claim C3 as stated fails: a \<open>BaseException\<close> of the task that is not an
  \<open>Exception\<close> is captured in the future, and the thread blocked in \<open>call\<close> gets it,
  besides leaving the task.
\<close>

theorem base_exception_captured_counterexample:
  "fstate (futures (fst (call (BlockingPortal 0) 1 (RaisingFunc (BaseError 0)))) 0) =
     FINISHED (Inl (BaseError 0))
   \<and> snd (call (BlockingPortal 0) 1 (RaisingFunc (BaseError 0))) = Some (Inl (BaseError 0))
   \<and> tg_errors (fst (call (BlockingPortal 0) 1 (RaisingFunc (BaseError 0)))) = [BaseError 0]
   \<and> \<not> isinstance_Exception (BaseError 0)"
  by code_simp

section \<open>The readiness channel\<close>

text \<open>
  Claim C4, as the code has it. The task's future \<open>fid\<close> carries \<open>task_done\<close>, and
  \<open>task_status_future\<close> is still pending: \<open>started\<close> was not called. When
  \<open>_call_func\<close> resolves the future, the readiness wait fails with the
  \<open>RuntimeError\<close> of the protocol violation if the task returned a value, with the
  task's own exception if it raised one (line 293 tests the truth value of that
  exception object: one that is false gives the \<open>RuntimeError\<close> of the protocol
  violation instead), and with \<open>CancelledError\<close> if it was cancelled, by the
  scheduler or through the future.
\<close>

theorem readiness_wait_fails_without_started:
  assumes "TaskDoneCallback tsf \<in> set (done_callbacks (futures w fid))"
    and "fstate (futures w tsf) = PENDING" and "fstate (futures w fid) = PENDING"
    and "tsf \<noteq> fid" and "tsf < next_future w" and "fid < next_future w"
  shows "result (futures (fst (call_func_finish w fid oc)) tsf) =
           Some (Inl (case oc of
                        Returned v \<Rightarrow>
                          RuntimeError ''Task exited without calling task_status.started()''
                      | Raised e \<Rightarrow>
                          if e = CancelledExc then CancelledError
                          else if truth_value e then e
                          else RuntimeError ''Task exited without calling task_status.started()''))
         \<and> result (futures (fst (cancel w tid fid)) tsf) = Some (Inl CancelledError)"
proof -
  have nd: "\<not> is_done (futures w fid)" "\<not> cancelled (futures w fid)"
    using assms(3) by (simp_all add: is_done_def finished_def cancelled_def)
  have c: "result (futures (fst (cancel w t fid)) tsf) = Some (Inl CancelledError)" for t
    using cancel_notifies[OF assms(1,2,4,5,6,3), of t] by (simp add: result_def cancelled_def)
  have "result (futures (fst (call_func_finish w fid oc)) tsf) =
           Some (Inl (case oc of
                        Returned v \<Rightarrow>
                          RuntimeError ''Task exited without calling task_status.started()''
                      | Raised e \<Rightarrow>
                          if e = CancelledExc then CancelledError
                          else if truth_value e then e
                          else RuntimeError ''Task exited without calling task_status.started()''))"
  proof (cases oc)
    case (Returned v)
    obtain w' where "set_result w (loop_thread w) fid v = Inr w'"
      "fstate (futures w' tsf) = FINISHED (Inl (RuntimeError ''Task exited without calling task_status.started()''))"
      using set_result_notifies[OF assms(1,2,4,5,6) nd(1)] by blast
    then show ?thesis using Returned nd
      by (simp add: call_func_finish_def result_def cancelled_def)
  next
    case (Raised e)
    show ?thesis
    proof (cases "e = CancelledExc")
      case True
      then show ?thesis using Raised c by (simp add: call_func_finish_def)
    next
      case False
      obtain w' where "set_exception w (loop_thread w) fid e = Inr w'"
        "fstate (futures w' tsf) =
           FINISHED (Inl (if truth_value e then e
                          else RuntimeError ''Task exited without calling task_status.started()''))"
        using set_exception_notifies[OF assms(1,2,4,5,6) nd(1), of "loop_thread w" e] by blast
      then show ?thesis using Raised nd False
        by (simp add: call_func_finish_def result_def cancelled_def)
    qed
  qed
  then show ?thesis using c by simp
qed

theorem readiness_wait_fails_without_started_witness:
  "TaskDoneCallback 0 \<in> set (done_callbacks (futures
       (add_done_callback (fst (new_future (fst (new_future (BlockingPortal 0))))) 1 1
          (TaskDoneCallback 0)) 1))
   \<and> result (futures (fst (call_func_finish
       (add_done_callback (fst (new_future (fst (new_future (BlockingPortal 0))))) 1 1
          (TaskDoneCallback 0)) 1 (Returned PyNone))) 0) =
       Some (Inl (RuntimeError ''Task exited without calling task_status.started()''))
   \<and> result (futures (fst (cancel
       (add_done_callback (fst (new_future (fst (new_future (BlockingPortal 0))))) 1 1
          (TaskDoneCallback 0)) 1 1)) 0) = Some (Inl CancelledError)"
  using readiness_wait_fails_without_started
    [of 0 "add_done_callback (fst (new_future (fst (new_future (BlockingPortal 0))))) 1 1
          (TaskDoneCallback 0)" 1 "Returned PyNone" 1]
  by (simp add: add_done_callback_def new_future_def BlockingPortal_def Future_def is_done_def
      finished_def Let_def)

text \<open>
  Claim C4 as stated fails: a task that raises an ordinary error, or is cancelled, before
  calling \<open>started\<close> makes \<open>start_task\<close> raise that error, or \<open>CancelledError\<close>,
  not a \<open>RuntimeError\<close>.
\<close>

theorem readiness_wait_other_errors_counterexample:
  "snd (start_task (BlockingPortal 0) 1 (CoroFunc (Raise (OrdinaryError 1)))) =
     Some (Inl (OrdinaryError 1))
   \<and> snd (start_task (BlockingPortal 0) 1 (CoroFunc (Raise CancelledExc))) =
     Some (Inl CancelledError)"
  by code_simp

text \<open>
  A task that raises an exception object that is false: the task's future holds the
  exception, and the readiness wait fails with the \<open>RuntimeError\<close> of the protocol
  violation.
\<close>

lemma readiness_wait_falsy_error:
  "snd (start_task (BlockingPortal 0) 1 (CoroFunc (Raise (FalsyError 1)))) =
     Some (Inl (RuntimeError ''Task exited without calling task_status.started()''))
   \<and> result (futures (fst (start_task (BlockingPortal 0) 1 (CoroFunc (Raise (FalsyError 1))))) 1) =
       Some (Inl (FalsyError 1))"
  by code_simp

text \<open>
  Claim C10. Once \<open>task_status.started(v)\<close> has resolved \<open>task_status_future\<close>, the
  readiness result is \<open>v\<close> and stays \<open>v\<close>: \<open>task_done\<close> does nothing, whatever
  \<open>_call_func\<close> does to the task's future afterwards (a value, an error, a
  cancellation), whatever a thread cancels and however long the loop runs; a second
  \<open>started\<close> raises \<open>InvalidStateError\<close>.
\<close>

theorem readiness_resolves_once:
  assumes "started w tsf v = Inr w1" and "tsf < next_future w"
  shows "result (futures w1 tsf) = Some (Inr v)
    \<and> task_done w1 fid tsf = w1
    \<and> result (futures (fst (cancel w1 tid fid)) tsf) = Some (Inr v)
    \<and> result (futures (fst (call_func_finish w1 fid oc)) tsf) = Some (Inr v)
    \<and> result (futures (run_loop w1) tsf) = Some (Inr v)
    \<and> started w1 tsf v' = Inl InvalidStateError"
proof -
  have f: "futures w1 tsf = (futures w tsf)\<lparr>fstate := FINISHED (Inr v)\<rparr>"
    using assms set_result_future by (simp add: started_def)
  have d: "is_done (futures w1 tsf)" by (simp add: f is_done_def finished_def)
  have r: "result (futures w1 tsf) = Some (Inr v)"
    by (simp add: f result_def cancelled_def)
  have n: "tsf < next_future w1"
    using adv_set_result[OF assms(1)[unfolded started_def]] assms(2) by (simp add: advances_def)
  obtain w2 x where cf: "call_func_finish w1 fid oc = (w2, x)" by (cases "call_func_finish w1 fid oc")
  show ?thesis
    using r d task_done_noop[OF d] adv_frozen[OF adv_cancel n d] adv_frozen[OF adv_call_func_finish[OF cf] n d]
      adv_frozen[OF adv_run_loop n d] cf
    by (simp add: started_def set_result_done)
qed

theorem readiness_resolves_once_witness:
  "\<exists>w1. started (fst (new_future (BlockingPortal 0))) 0 (PyInt 7) = Inr w1
     \<and> result (futures w1 0) = Some (Inr (PyInt 7))
     \<and> task_done w1 1 0 = w1
     \<and> result (futures (fst (call_func_finish w1 1 (Raised (OrdinaryError 3)))) 0) =
          Some (Inr (PyInt 7))
     \<and> result (futures (run_loop w1) 0) = Some (Inr (PyInt 7))"
proof -
  obtain w1 where s: "started (fst (new_future (BlockingPortal 0))) 0 (PyInt 7) = Inr w1"
    using set_result_ok[of "fst (new_future (BlockingPortal 0))" 0]
    by (auto simp: started_def new_future_def BlockingPortal_def Future_def is_done_def finished_def)
  have n: "0 < next_future (fst (new_future (BlockingPortal 0)))"
    by (simp add: new_future_def BlockingPortal_def)
  show ?thesis
    using readiness_resolves_once[OF s n, of 1 0 "Raised (OrdinaryError 3)" PyNone] s by blast
qed

section \<open>The entry points\<close>

lemma result_blocking_await: "result_blocking w fid = await_result w fid"
  by (auto simp: result_blocking_def await_result_def result_def cancelled_def Let_def
      split: fstate.splits sum.splits)

text \<open>
  Claim C7. For every callable, \<open>call\<close> as the code has it
  (\<open>start_task_soon(func, *args).result()\<close>, with \<open>Future.result\<close> of the standard
  library) is the specification's \<open>call\<close>: the usage error of \<open>start_task_soon\<close> if
  it raises one; otherwise the thread blocks while the loop runs, and gets the value of
  the finished future, the exception stored in it, or \<open>CancelledError\<close> for a
  cancelled one.
\<close>

theorem call_is_start_task_soon_then_result: "call w tid func = call_spec w tid func"
  by (simp add: call_def call_spec_def result_blocking_await split: prod.splits sum.splits)







section \<open>Cancelling through the future\<close>

lemma calm_refl [simp]: "calm w w" by (simp add: calm_def)

lemma calm_trans: "calm a b \<Longrightarrow> calm b c \<Longrightarrow> calm a c"
  unfolding calm_def by blast

lemma calm_call_scope_cancel: "calm w (fst (call_scope_cancel w tid sid))"
  by (auto simp: calm_def call_scope_cancel_def new_future_def scope_cancel_def Let_def split: sum.splits)

lemma calm_task_done: "calm w (task_done w fid tsf)"
  by (auto simp: calm_def task_done_def Let_def split: option.splits sum.splits)

lemma calm_invoke_callback: "calm w (invoke_callback tid fid w cb)"
  by (cases cb) (simp_all add: callback_def calm_call_scope_cancel calm_task_done)

lemma calm_foldl: "calm w (foldl (invoke_callback tid fid) w cbs)"
proof (induction cbs arbitrary: w)
  case Nil show ?case by simp
next
  case (Cons c cbs)
  show ?case using calm_trans[OF calm_invoke_callback Cons.IH] by simp
qed

lemma calm_futures: "calm w (w\<lparr>futures := f\<rparr>)" by (simp add: calm_def)

lemma calm_started: "started w tsf v = Inr w' \<Longrightarrow> calm w w'"
  unfolding started_def set_result_def invoke_callbacks_def
  by (auto split: sum.splits intro!: calm_trans[OF calm_futures calm_foldl])

lemma calm_stop: "calm w (stop w b)"
  by (simp add: calm_def stop_def Let_def)

lemma calm_throw: "calm w (w\<lparr>trace := trace w @ [ThrowEv sid]\<rparr>)"
  by (simp add: calm_def)

lemma calm_delivered: "calm w w' \<Longrightarrow> cancel_delivered w sid \<Longrightarrow> cancel_delivered w' sid"
  by (auto simp: calm_def cancel_delivered_def)

lemma run_coro_cancelled:
  "cancel_delivered w sid \<Longrightarrow> run_coro sid ts c w = (w', r) \<Longrightarrow> calm w w'"
proof (induction sid ts c w arbitrary: w' r rule: run_coro.induct)
  case (3 sid ts k kc w)
  have d: "cancel_delivered (w\<lparr>trace := trace w @ [ThrowEv sid]\<rparr>) sid"
    using calm_delivered[OF calm_throw "3.prems"(1)] .
  show ?case using 3 d calm_trans[OF calm_throw] by auto
next
  case (4 sid ts v k w)
  show ?case
  proof (cases ts)
    case None
    then show ?thesis using 4 by auto
  next
    case (Some tsf)
    show ?thesis
    proof (cases "started w tsf v")
      case (Inl e)
      then show ?thesis using 4 Some by auto
    next
      case (Inr w1)
      have c: "calm w w1" using calm_started[OF Inr] .
      have "calm w1 w'" using "4.IH"(2)[OF Some Inr calm_delivered[OF c "4.prems"(1)]] "4.prems"(2) Some Inr by simp
      then show ?thesis using calm_trans[OF c] by blast
    qed
  qed
next
  case (5 sid ts k kc w)
  have d: "cancel_delivered (w\<lparr>trace := trace w @ [ThrowEv sid]\<rparr>) sid"
    using calm_delivered[OF calm_throw "5.prems"(1)] .
  show ?case using 5 d calm_trans[OF calm_throw] by auto
next
  case (6 sid ts b k w)
  have "calm (stop w b) w'" using "6.IH"[OF calm_delivered[OF calm_stop "6.prems"(1)]] "6.prems"(2) by simp
  then show ?case using calm_trans[OF calm_stop] by blast
qed auto


lemma invoke_callback_thread_id:
  "event_loop_thread_id (invoke_callback tid fid w cb) = event_loop_thread_id w"
  by (cases cb)
     (auto simp: callback_def call_scope_cancel_def new_future_def scope_cancel_def Let_def
        task_done_def split: sum.splits option.splits)

lemma invoke_callback_check:
  "check_running (invoke_callback tid fid w cb) t = check_running w t"
  by (simp add: check_running_def invoke_callback_thread_id)

lemma invoke_callback_scopes:
  "cancelled (futures w fid) \<Longrightarrow>
   scopes (invoke_callback tid fid w cb) sid =
     (scopes w sid \<or> (cb = CallFuncCallback sid \<and> check_running w tid = Inr ()))"
  by (cases cb)
     (auto simp: callback_def call_scope_cancel_def new_future_def scope_cancel_def Let_def
        task_done_def split: sum.splits option.splits)

lemma foldl_callbacks_scopes:
  assumes "cancelled (futures w fid)" "fid < next_future w"
  shows "scopes (foldl (invoke_callback tid fid) w cbs) sid =
     (scopes w sid \<or> (CallFuncCallback sid \<in> set cbs \<and> check_running w tid = Inr ()))"
  using assms
proof (induction cbs arbitrary: w)
  case Nil then show ?case by simp
next
  case (Cons c cs)
  let ?w1 = "invoke_callback tid fid w c"
  have a: "advances w ?w1" by (rule adv_invoke_callback)
  have d: "is_done (futures w fid)" using Cons.prems(1) by (auto simp: is_done_def cancelled_def)
  have 1: "cancelled (futures ?w1 fid)" using adv_frozen[OF a Cons.prems(2) d] Cons.prems(1) by simp
  have 2: "fid < next_future ?w1" using a Cons.prems(2) by (auto simp: advances_def)
  show ?case
    using Cons.IH[OF 1 2] invoke_callback_scopes[OF Cons.prems(1), of tid c sid]
      invoke_callback_check[of tid fid w c tid]
    by auto
qed

lemma cancel_runs_callback:
  assumes "fstate (futures w fid) = PENDING" "fid < next_future w"
  shows "scopes (fst (cancel w tid fid)) sid =
     (scopes w sid \<or>
      (CallFuncCallback sid \<in> set (done_callbacks (futures w fid)) \<and> check_running w tid = Inr ()))"
proof -
  let ?w1 = "w\<lparr>futures := (futures w)(fid := (futures w fid)\<lparr>fstate := CANCELLED\<rparr>)\<rparr>"
  have e: "fst (cancel w tid fid) = foldl (invoke_callback tid fid) ?w1 (done_callbacks (futures w fid))"
    using assms(1) by (simp add: cancel_def cancel_raw_def finished_def invoke_callbacks_def)
  have c: "cancelled (futures ?w1 fid)" by (simp add: cancelled_def)
  show ?thesis unfolding e
    using foldl_callbacks_scopes[OF c, of tid "done_callbacks (futures w fid)" sid] assms(2)
    by (simp add: check_running_def)
qed

lemma call_func_scope_cancelled:
  assumes "cancelled (futures w fid)"
  shows "call_func_scope w fid =
     (w\<lparr>next_scope := Suc (next_scope w), scopes := (scopes w)(next_scope w := True),
        trace := trace w @ [ScopeCancelEv (next_scope w), AwaitEv (next_scope w)]\<rparr>, next_scope w)"
  using assms by (simp add: call_func_scope_def scope_cancel_def Let_def)

lemma call_func_scope_pending:
  assumes "\<not> is_done (futures w fid)"
  shows "call_func_scope w fid =
     (w\<lparr>next_scope := Suc (next_scope w), scopes := (scopes w)(next_scope w := False),
        futures := (futures w)(fid := (futures w fid)
           \<lparr>done_callbacks := done_callbacks (futures w fid) @ [CallFuncCallback (next_scope w)]\<rparr>),
        trace := trace w @ [AwaitEv (next_scope w)]\<rparr>, next_scope w)"
  using assms by (auto simp add: call_func_scope_def add_done_callback_def Let_def is_done_def cancelled_def)

lemma call_func_scope_snd: "snd (call_func_scope w fid) = next_scope w"
  by (simp add: call_func_scope_def Let_def)

text \<open>
  Entering the cancel scope. \<open>_call_func\<close> has got a coroutine from \<open>func\<close> for
  a future that is pending or cancelled, and enters its cancel scope \<open>sid\<close>.

  If the future is cancelled at that moment, the scope is cancelled and only then the
  coroutine awaited; no callback is registered; and the coroutine is never resumed
  normally at a suspension point, whatever it is.

  If the future is pending, \<open>callback\<close> is registered on it and the scope is not
  cancelled. When a thread \<open>tid\<close> cancels the future, now or in a later state \<open>w2\<close>
  in which the scope is not cancelled yet, the callback runs
  \<open>self.call(scope.cancel)\<close> in that thread: the scope is cancelled exactly when
  \<open>_check_running\<close> lets that thread in, that is when the portal is running and
  \<open>tid\<close> is not the thread of the event loop.
\<close>

lemma scope_entry_ties_future_to_scope:
  assumes "call_func_scope w fid = (w1, sid)"
    and "fstate (futures w fid) = PENDING \<or> cancelled (futures w fid)"
    and "fid < next_future w"
    and "ResumeEv (next_scope w) \<notin> set (trace w)"
  shows "(if cancelled (futures w fid) then
            scopes w1 sid \<and> trace w1 = trace w @ [ScopeCancelEv sid, AwaitEv sid]
            \<and> futures w1 = futures w
            \<and> ResumeEv sid \<notin> set (trace (fst (run_coro sid ts c w1)))
          else
            done_callbacks (futures w1 fid) = done_callbacks (futures w fid) @ [CallFuncCallback sid]
            \<and> \<not> scopes w1 sid \<and> trace w1 = trace w @ [AwaitEv sid]
            \<and> cancelled (futures (fst (cancel w1 tid fid)) fid)
            \<and> scopes (fst (cancel w1 tid fid)) sid = (check_running w1 tid = Inr ()))
       \<and> (fstate (futures w2 fid) = PENDING \<and> fid < next_future w2
            \<and> CallFuncCallback sid \<in> set (done_callbacks (futures w2 fid)) \<and> \<not> scopes w2 sid
          \<longrightarrow> cancelled (futures (fst (cancel w2 tid fid)) fid)
            \<and> scopes (fst (cancel w2 tid fid)) sid = (check_running w2 tid = Inr ()))"
proof -
  have later: "fstate (futures w2 fid) = PENDING \<and> fid < next_future w2
            \<and> CallFuncCallback sid \<in> set (done_callbacks (futures w2 fid)) \<and> \<not> scopes w2 sid
          \<longrightarrow> cancelled (futures (fst (cancel w2 tid fid)) fid)
            \<and> scopes (fst (cancel w2 tid fid)) sid = (check_running w2 tid = Inr ())"
    using cancel_runs_callback[of w2 fid tid sid] cancel_future_pending[of w2 fid tid]
    by (auto simp: cancelled_def)
  have "if cancelled (futures w fid) then
            scopes w1 sid \<and> trace w1 = trace w @ [ScopeCancelEv sid, AwaitEv sid]
            \<and> futures w1 = futures w
            \<and> ResumeEv sid \<notin> set (trace (fst (run_coro sid ts c w1)))
          else
            done_callbacks (futures w1 fid) = done_callbacks (futures w fid) @ [CallFuncCallback sid]
            \<and> \<not> scopes w1 sid \<and> trace w1 = trace w @ [AwaitEv sid]
            \<and> cancelled (futures (fst (cancel w1 tid fid)) fid)
            \<and> scopes (fst (cancel w1 tid fid)) sid = (check_running w1 tid = Inr ())"
  proof (cases "cancelled (futures w fid)")
    case True
    note e = call_func_scope_cancelled[OF True]
    have s: "sid = next_scope w" and w1: "w1 = w\<lparr>next_scope := Suc (next_scope w),
        scopes := (scopes w)(next_scope w := True),
        trace := trace w @ [ScopeCancelEv (next_scope w), AwaitEv (next_scope w)]\<rparr>"
      using assms(1) e by auto
    obtain w3 r where rc: "run_coro sid ts c w1 = (w3, r)" by (cases "run_coro sid ts c w1")
    have d: "cancel_delivered w1 sid" by (simp add: w1 s cancel_delivered_def)
    have "calm w1 w3" using run_coro_cancelled[OF d rc] .
    then have "ResumeEv sid \<notin> set (trace w3)"
      using assms(4) by (auto simp: calm_def w1 s)
    then show ?thesis using True rc by (simp add: w1 s)
  next
    case False
    then have p: "fstate (futures w fid) = PENDING" using assms(2) by simp
    then have nd: "\<not> is_done (futures w fid)" by (simp add: is_done_def finished_def)
    note e = call_func_scope_pending[OF nd]
    have s: "sid = next_scope w" and w1: "w1 = w\<lparr>next_scope := Suc (next_scope w),
        scopes := (scopes w)(next_scope w := False),
        futures := (futures w)(fid := (futures w fid)
           \<lparr>done_callbacks := done_callbacks (futures w fid) @ [CallFuncCallback (next_scope w)]\<rparr>),
        trace := trace w @ [AwaitEv (next_scope w)]\<rparr>"
      using assms(1) e by auto
    have p1: "fstate (futures w1 fid) = PENDING" "fid < next_future w1"
      using p assms(3) by (simp_all add: w1)
    have c: "scopes (fst (cancel w1 tid fid)) sid = (check_running w1 tid = Inr ())"
      using cancel_runs_callback[OF p1, of tid sid] by (simp add: w1 s)
    have c2: "cancelled (futures (fst (cancel w1 tid fid)) fid)"
      using cancel_future_pending[OF p1, of tid] by (simp add: cancelled_def)
    show ?thesis using False c c2 by (simp add: w1 s)
  qed
  then show ?thesis using later by blast
qed

lemma scope_entry_example:
  "done_callbacks (futures (fst (call_func_scope (fst (new_future (BlockingPortal 0))) 0)) 0) =
       [CallFuncCallback 0]
   \<and> scopes (fst (cancel (fst (call_func_scope (fst (new_future (BlockingPortal 0))) 0)) 2 0)) 0
   \<and> \<not> scopes (fst (cancel (fst (call_func_scope (fst (new_future (BlockingPortal 0))) 0)) 0 0)) 0
   \<and> scopes (fst (call_func_scope (fst (cancel (fst (new_future (BlockingPortal 0))) 2 0)) 0)) 0
   \<and> ResumeEv 0 \<notin> set (trace (fst (run_coro 0 None
         (Checkpoint (Return (PyInt 1)) (Raise CancelledExc))
         (fst (call_func_scope (fst (cancel (fst (new_future (BlockingPortal 0))) 2 0)) 0)))))"
proof -
  let ?W = "fst (new_future (BlockingPortal 0))"
  let ?C = "fst (cancel ?W 2 0)"
  let ?W1 = "fst (call_func_scope ?W 0)"
  let ?C1 = "fst (call_func_scope ?C 0)"
  have w1: "call_func_scope ?W 0 = (?W1, 0)"
    by (simp add: prod_eq_iff call_func_scope_snd new_future_def BlockingPortal_def)
  have w2: "fstate (futures ?W 0) = PENDING \<or> cancelled (futures ?W 0)"
    by (simp add: new_future_def BlockingPortal_def Future_def)
  have w3: "0 < next_future ?W" by (simp add: new_future_def BlockingPortal_def)
  have w4: "ResumeEv (next_scope ?W) \<notin> set (trace ?W)"
    by (simp add: new_future_def BlockingPortal_def)
  have w5: "\<not> cancelled (futures ?W 0)" "done_callbacks (futures ?W 0) = []"
    by (simp_all add: new_future_def BlockingPortal_def Future_def cancelled_def)
  have w6: "event_loop_thread_id ?W1 = Some 0"
    by (simp add: call_func_scope_def Let_def new_future_def BlockingPortal_def Future_def
        add_done_callback_def is_done_def finished_def cancelled_def)
  have w7: "check_running ?W1 2 = Inr ()" "check_running ?W1 0 \<noteq> Inr ()"
    by (simp_all add: check_running_def w6)
  have c0: "futures ?C 0 = \<lparr>fstate = CANCELLED, done_callbacks = []\<rparr>"
    "next_future ?C = Suc 0" "next_scope ?C = 0" "trace ?C = []"
    by (simp_all add: new_future_def BlockingPortal_def Future_def cancel_def cancel_raw_def
        finished_def invoke_callbacks_def)
  have c1: "call_func_scope ?C 0 = (?C1, 0)"
    by (simp add: prod_eq_iff call_func_scope_snd c0)
  have c2: "fstate (futures ?C 0) = PENDING \<or> cancelled (futures ?C 0)" "cancelled (futures ?C 0)"
    by (simp_all add: c0 cancelled_def)
  have c3: "0 < next_future ?C" "ResumeEv (next_scope ?C) \<notin> set (trace ?C)"
    by (simp_all add: c0)
  note a = scope_entry_ties_future_to_scope[OF w1 w2 w3 w4, of None "Return PyNone" 2 ?W]
  note b = scope_entry_ties_future_to_scope[OF w1 w2 w3 w4, of None "Return PyNone" 0 ?W]
  note c = scope_entry_ties_future_to_scope[OF c1 c2(1) c3, of None
             "Checkpoint (Return (PyInt 1)) (Raise CancelledExc)" 2 ?W]
  have 1: "done_callbacks (futures ?W1 0) = [CallFuncCallback 0]" "scopes (fst (cancel ?W1 2 0)) 0"
    using a w5 w7 by simp_all
  have 2: "\<not> scopes (fst (cancel ?W1 0 0)) 0"
    using b w5 w7 by simp
  have 3: "scopes ?C1 0" "ResumeEv 0 \<notin> set (trace (fst (run_coro 0 None
         (Checkpoint (Return (PyInt 1)) (Raise CancelledExc)) ?C1)))"
    using c c2(2) by simp_all
  show ?thesis using 1 2 3 by blast
qed

text \<open>
  Claim C1. Thread 1 has started a task on the portal of thread 0; its coroutine sleeps in
  \<open>sleep_until_stopped\<close>, suspended in scope 0, with \<open>callback\<close> registered on its
  pending future. The docstring of \<open>start_task_soon\<close> promises "a cancel scope which
  can be cancelled by cancelling the returned future", and \<open>callback\<close> is there to do
  it with \<open>self.call(scope.cancel)\<close>. But \<open>call\<close> begins with
  \<open>_check_running\<close>:

  \<^item> when the future is cancelled in the thread of the event loop (thread 0, as a task
    or a callback running on the loop would), the guard raises inside the done-callback:
    the future is cancelled, the scope is not, and once the portal is stopped the loop
    resumes the coroutine normally;
  \<^item> the same when \<open>stop(False)\<close> has run and thread 1 cancels the future before the
    loop gets back to the task;
  \<^item> when thread 1 cancels the future while the portal is running, the scope is
    cancelled and the cancellation is thrown into the coroutine, as the claim says.
\<close>

theorem future_cancellation_lost:
  "map tstate (tasks (run_loop (fst (start_task_soon (BlockingPortal 0) 1
      (CoroFunc (SleepUntilStopped (Return PyNone) (Raise CancelledExc))))))) =
        [Blocked 0 (SleepUntilStopped (Return PyNone) (Raise CancelledExc))]
   \<and> done_callbacks (futures (run_loop (fst (start_task_soon (BlockingPortal 0) 1
      (CoroFunc (SleepUntilStopped (Return PyNone) (Raise CancelledExc)))))) 0) = [CallFuncCallback 0]
   \<and> cancelled (futures (fst (cancel (run_loop (fst (start_task_soon (BlockingPortal 0) 1
      (CoroFunc (SleepUntilStopped (Return PyNone) (Raise CancelledExc)))))) 0 0)) 0)
   \<and> \<not> scopes (fst (cancel (run_loop (fst (start_task_soon (BlockingPortal 0) 1
      (CoroFunc (SleepUntilStopped (Return PyNone) (Raise CancelledExc)))))) 0 0)) 0
   \<and> trace (run_loop (stop (fst (cancel (run_loop (fst (start_task_soon (BlockingPortal 0) 1
      (CoroFunc (SleepUntilStopped (Return PyNone) (Raise CancelledExc)))))) 0 0)) False)) =
        [AwaitEv 0, ResumeEv 0]
   \<and> cancelled (futures (fst (cancel (stop (run_loop (fst (start_task_soon (BlockingPortal 0) 1
      (CoroFunc (SleepUntilStopped (Return PyNone) (Raise CancelledExc)))))) False) 1 0)) 0)
   \<and> \<not> scopes (fst (cancel (stop (run_loop (fst (start_task_soon (BlockingPortal 0) 1
      (CoroFunc (SleepUntilStopped (Return PyNone) (Raise CancelledExc)))))) False) 1 0)) 0
   \<and> trace (run_loop (fst (cancel (stop (run_loop (fst (start_task_soon (BlockingPortal 0) 1
      (CoroFunc (SleepUntilStopped (Return PyNone) (Raise CancelledExc)))))) False) 1 0))) =
        [AwaitEv 0, ResumeEv 0]
   \<and> scopes (fst (cancel (run_loop (fst (start_task_soon (BlockingPortal 0) 1
      (CoroFunc (SleepUntilStopped (Return PyNone) (Raise CancelledExc)))))) 1 0)) 0
   \<and> trace (run_loop (fst (cancel (run_loop (fst (start_task_soon (BlockingPortal 0) 1
      (CoroFunc (SleepUntilStopped (Return PyNone) (Raise CancelledExc)))))) 1 0))) =
        [AwaitEv 0, ScopeCancelEv 0, ThrowEv 0]"
  by code_simp

section \<open>A task leaves the futures of the others alone\<close>

lemma leaves_refl [simp]: "leaves f w w" by (simp add: leaves_def)

lemma leaves_trans: "leaves f a b \<Longrightarrow> leaves f b c \<Longrightarrow> leaves f a c"
  unfolding leaves_def by auto

lemma lv_scope_cancel: "leaves f w (scope_cancel w sid)"
  by (simp add: leaves_def private_future_def scope_cancel_def)

lemma lv_call_scope_cancel: "leaves f w (fst (call_scope_cancel w tid sid))"
  by (auto simp: leaves_def private_future_def call_scope_cancel_def new_future_def
      scope_cancel_def Let_def Future_def split: sum.splits)

lemma lv_callback: "leaves f w (callback w tid fid sid)"
  by (simp add: callback_def lv_call_scope_cancel)

lemma lv_task_done: "tsf \<noteq> f \<Longrightarrow> leaves f w (task_done w fid tsf)"
  by (auto simp: leaves_def private_future_def task_done_def Let_def cancel_raw_def
      set_exception_raw_def split: option.splits sum.splits if_splits)

lemma lv_invoke_callback: "cb \<noteq> TaskDoneCallback f \<Longrightarrow> leaves f w (invoke_callback tid fid w cb)"
  by (cases cb) (auto simp: lv_callback lv_task_done)

lemma lv_foldl:
  "TaskDoneCallback f \<notin> set cbs \<Longrightarrow> leaves f w (foldl (invoke_callback tid fid) w cbs)"
proof (induction cbs arbitrary: w)
  case Nil show ?case by simp
next
  case (Cons c cbs)
  have 1: "leaves f w (invoke_callback tid fid w c)"
    using Cons.prems by (intro lv_invoke_callback) auto
  have 2: "leaves f (invoke_callback tid fid w c) (foldl (invoke_callback tid fid) (invoke_callback tid fid w c) cbs)"
    using Cons.prems by (intro Cons.IH) auto
  show ?case using leaves_trans[OF 1 2] by simp
qed

lemma lv_invoke_callbacks: "leaves f w (invoke_callbacks w tid fid)"
  unfolding leaves_def
proof
  assume p: "private_future f w"
  then have "TaskDoneCallback f \<notin> set (done_callbacks (futures w fid))"
    by (simp add: private_future_def)
  from lv_foldl[OF this, of w tid fid] p
  show "private_future f (invoke_callbacks w tid fid) \<and> futures (invoke_callbacks w tid fid) f = futures w f"
    by (simp add: leaves_def invoke_callbacks_def)
qed

lemma lv_upd_state:
  "fid \<noteq> f \<Longrightarrow> leaves f w (w\<lparr>futures := (futures w)(fid := (futures w fid)\<lparr>fstate := st\<rparr>)\<rparr>)"
  by (auto simp: leaves_def private_future_def)

lemma lv_cancel: "fid \<noteq> f \<Longrightarrow> leaves f w (fst (cancel w tid fid))"
  unfolding cancel_def cancel_raw_def
  by (auto simp: Let_def fun_upd_idem intro!: leaves_trans[OF lv_upd_state lv_invoke_callbacks])

lemma lv_set_result: "fid \<noteq> f \<Longrightarrow> set_result w tid fid v = Inr w' \<Longrightarrow> leaves f w w'"
  unfolding set_result_def set_result_raw_def
  by (auto split: if_splits intro!: leaves_trans[OF lv_upd_state lv_invoke_callbacks])

lemma lv_set_exception: "fid \<noteq> f \<Longrightarrow> set_exception w tid fid v = Inr w' \<Longrightarrow> leaves f w w'"
  unfolding set_exception_def set_exception_raw_def
  by (auto split: if_splits intro!: leaves_trans[OF lv_upd_state lv_invoke_callbacks])

lemma lv_upd_callbacks:
  "fid \<noteq> f \<Longrightarrow> cb \<noteq> TaskDoneCallback f \<Longrightarrow>
   leaves f w (w\<lparr>futures := (futures w)(fid := (futures w fid)\<lparr>done_callbacks := done_callbacks (futures w fid) @ [cb]\<rparr>)\<rparr>)"
  by (auto simp: leaves_def private_future_def)

lemma lv_add_done_callback:
  "fid \<noteq> f \<Longrightarrow> cb \<noteq> TaskDoneCallback f \<Longrightarrow> leaves f w (add_done_callback w tid fid cb)"
  unfolding add_done_callback_def Let_def
  by (auto intro!: lv_upd_callbacks lv_invoke_callback)

lemma lv_stop: "leaves f w (stop w b)"
  by (simp add: leaves_def private_future_def stop_def Let_def)

lemma lv_trace: "leaves f w (w\<lparr>trace := t\<rparr>)" by (simp add: leaves_def private_future_def)

lemma lv_run_coro: "ts \<noteq> Some f \<Longrightarrow> run_coro sid ts c w = (w', r) \<Longrightarrow> leaves f w w'"
proof (induction sid ts c w arbitrary: w' r rule: run_coro.induct)
  case (3 sid ts k kc w)
  then show ?case by (auto split: if_splits intro: leaves_trans[OF lv_trace])
next
  case (4 sid ts v k w)
  then show ?case
    by (auto simp: started_def split: option.splits sum.splits intro: leaves_trans[OF lv_set_result])
next
  case (5 sid ts k kc w)
  then show ?case by (auto split: if_splits option.splits intro: leaves_trans[OF lv_trace])
next
  case (6 sid ts b k w)
  then show ?case by (auto intro: leaves_trans[OF lv_stop])
qed auto


lemma lv_scope_alloc: "leaves f w (w\<lparr>next_scope := a, scopes := b\<rparr>)"
  by (simp add: leaves_def private_future_def)

lemma lv_call_func_scope: "fid \<noteq> f \<Longrightarrow> call_func_scope w fid = (w', sid) \<Longrightarrow> leaves f w w'"
proof -
  assume n: "fid \<noteq> f" and a: "call_func_scope w fid = (w', sid)"
  let ?w1 = "w\<lparr>next_scope := Suc (next_scope w), scopes := (scopes w)(next_scope w := False)\<rparr>"
  let ?w2 = "if cancelled (futures ?w1 fid) then scope_cancel ?w1 (next_scope w)
             else add_done_callback ?w1 (loop_thread ?w1) fid (CallFuncCallback (next_scope w))"
  have 1: "leaves f w ?w1" by (rule lv_scope_alloc)
  have 2: "leaves f ?w1 ?w2" using lv_scope_cancel lv_add_done_callback[OF n] by simp
  have 3: "w' = ?w2\<lparr>trace := trace ?w2 @ [AwaitEv (next_scope w)]\<rparr>"
    using a unfolding call_func_scope_def Let_def by auto
  show ?thesis unfolding 3 by (rule leaves_trans[OF leaves_trans[OF 1 2] lv_trace])
qed

lemma lv_call_func_finish: "fid \<noteq> f \<Longrightarrow> call_func_finish w fid oc = (w', r) \<Longrightarrow> leaves f w w'"
  unfolding call_func_finish_def
  by (auto split: outcome.splits if_splits sum.splits
      intro: lv_set_result lv_set_exception lv_cancel)

lemma lv_tg_errors: "leaves f w (w\<lparr>tg_errors := t\<rparr>)" by (simp add: leaves_def private_future_def)

lemma lv_task_exit: "leaves f w (task_exit (w, r))"
  by (cases r) (simp_all add: task_exit_def leaves_def private_future_def stop_def Let_def)

lemma lv_finish_exit: "fid \<noteq> f \<Longrightarrow> leaves f w (task_exit (call_func_finish w fid oc))"
proof -
  assume n: "fid \<noteq> f"
  obtain w' r where c: "call_func_finish w fid oc = (w', r)" by (cases "call_func_finish w fid oc")
  show ?thesis unfolding c using leaves_trans[OF lv_call_func_finish[OF n c] lv_task_exit] .
qed

lemma lv_await_coro:
  assumes "foreign f t" "await_coro w t sid c = (w', r)"
  shows "leaves f w w' \<and> (\<forall>b. r = Some b \<longrightarrow> foreign f b)"
proof -
  have n: "tfuture t \<noteq> f" "tstatus t \<noteq> Some f" using assms(1) by (simp_all add: foreign_def)
  obtain w1 x where rc: "run_coro sid (tstatus t) c w = (w1, x)"
    by (cases "run_coro sid (tstatus t) c w")
  note 1 = lv_run_coro[OF n(2) rc]
  show ?thesis
  proof (cases x)
    case (Finished oc)
    then show ?thesis using assms(2) rc leaves_trans[OF 1 lv_finish_exit[OF n(1)]]
      by (auto simp: await_coro_def)
  next
    case (Suspended c')
    then show ?thesis using assms rc 1 by (auto simp: await_coro_def foreign_def)
  qed
qed

lemma lv_cm_aexit: "cm_aexit w sid c = (w', r) \<Longrightarrow> leaves f w w'"
  unfolding cm_aexit_def by (auto split: prod.splits run.splits intro: lv_run_coro)

lemma lv_cm_wait: "cm_wait w sid aid = (w', r) \<Longrightarrow> leaves f w w'"
  unfolding cm_wait_def
  by (auto split: option.splits if_splits intro: lv_cm_aexit lv_trace)

lemma lv_cm_aenter: "cm_aenter w sid aid c = (w', r) \<Longrightarrow> leaves f w w'"
proof -
  assume a: "cm_aenter w sid aid c = (w', r)"
  obtain w1 x where rc: "run_coro sid None c w = (w1, x)" by (cases "run_coro sid None c w")
  have 1: "leaves f w w1" using lv_run_coro[OF _ rc] by simp
  show ?thesis unfolding leaves_def
  proof
    assume p: "private_future f w"
    then have p1: "private_future f w1" "futures w1 f = futures w f" using 1 by (auto simp: leaves_def)
    have "leaves f w1 w'"
    proof (cases x)
      case (Suspended c')
      then show ?thesis using a rc by (simp add: cm_aenter_def)
    next
      case (Finished oc)
      show ?thesis
      proof (cases "enter_future (adapters w1 aid)")
        case None
        then show ?thesis using a rc Finished by (simp add: cm_aenter_def)
      next
        case (Some ef)
        then have n: "ef \<noteq> f" using p1(1) by (auto simp: private_future_def)
        show ?thesis
        proof (cases oc)
          case (Raised e)
          then show ?thesis using a rc Finished Some lv_set_exception[OF n]
            by (auto simp: cm_aenter_def split: sum.splits)
        next
          case (Returned v)
          then show ?thesis using a rc Finished Some
            by (auto simp: cm_aenter_def split: sum.splits
                intro: leaves_trans[OF lv_set_result[OF n] lv_cm_wait])
        qed
      qed
    qed
    then show "private_future f w' \<and> futures w' f = futures w f"
      using p1 by (auto simp: leaves_def)
  qed
qed

lemma lv_event_alloc:
  "leaves f w (w\<lparr>next_event := a, events := b,
      adapters := (adapters w)(aid := (adapters w aid)\<lparr>exit_event := e\<rparr>)\<rparr>)"
  by (simp add: leaves_def private_future_def)

lemma lv_run_async_cm: "run_async_cm w sid aid = (w', r) \<Longrightarrow> leaves f w w'"
  unfolding run_async_cm_def Let_def
  by (rule leaves_trans[OF lv_event_alloc lv_cm_aenter])

lemma lv_cm_resume: "cm_resume w sid aid st = (w', r) \<Longrightarrow> leaves f w w'"
  unfolding cm_resume_def
  by (auto split: cm_state.splits intro: lv_cm_aenter lv_cm_wait lv_cm_aexit)

lemma lv_await_cm:
  assumes "foreign f t" "leaves f w w1" "await_cm t sid aid (w1, x) = (w', r)"
  shows "leaves f w w' \<and> (\<forall>b. r = Some b \<longrightarrow> foreign f b)"
proof (cases x)
  case (CMFinished oc)
  have n: "tfuture t \<noteq> f" using assms(1) by (simp add: foreign_def)
  show ?thesis using assms(3) CMFinished leaves_trans[OF assms(2) lv_finish_exit[OF n]]
    by (auto simp: await_cm_def)
next
  case (CMSuspended st)
  then show ?thesis using assms by (auto simp: await_cm_def foreign_def)
qed

lemma lv_apply_func: "apply_func func w = (w', r) \<Longrightarrow> leaves f w w'"
  by (cases func) (auto simp: leaves_def private_future_def scope_cancel_def)

lemma lv_call_func:
  assumes "foreign f t" "call_func w t = (w', r)"
  shows "leaves f w w' \<and> (\<forall>b. r = Some b \<longrightarrow> foreign f b)"
proof (cases "tstate t")
  case (NotStarted func)
  have n: "tfuture t \<noteq> f" using assms(1) by (simp add: foreign_def)
  obtain w1 x where ap: "apply_func func w = (w1, x)" by (cases "apply_func func w")
  note 1 = lv_apply_func[OF ap]
  show ?thesis
  proof (cases x)
    case (Inl e)
    with assms(2) NotStarted ap have "w' = task_exit (call_func_finish w1 (tfuture t) (Raised e))" "r = None"
      by (simp_all add: call_func_def)
    then show ?thesis using leaves_trans[OF 1 lv_finish_exit[OF n]] by simp
  next
    case (Inr rv)
    show ?thesis
    proof (cases rv)
      case (Value v)
      with assms(2) NotStarted ap Inr
      have "w' = task_exit (call_func_finish w1 (tfuture t) (Returned v))" "r = None"
        by (simp_all add: call_func_def)
      then show ?thesis using leaves_trans[OF 1 lv_finish_exit[OF n]] by simp
    next
      case (Coroutine c)
      obtain w2 sid where sc: "call_func_scope w1 (tfuture t) = (w2, sid)"
        by (cases "call_func_scope w1 (tfuture t)")
      with assms(2) NotStarted ap Inr Coroutine have aw: "await_coro w2 t sid c = (w', r)"
        by (simp add: call_func_def)
      from lv_await_coro[OF assms(1) aw]
      show ?thesis
        using leaves_trans[OF 1 leaves_trans[OF lv_call_func_scope[OF n sc]]] by blast
    next
      case (AsyncCMCoroutine aid)
      obtain w2 sid where sc: "call_func_scope w1 (tfuture t) = (w2, sid)"
        by (cases "call_func_scope w1 (tfuture t)")
      obtain w3 x3 where rc: "run_async_cm w2 sid aid = (w3, x3)" by (cases "run_async_cm w2 sid aid")
      from assms(2) NotStarted ap Inr AsyncCMCoroutine sc rc
      have aw: "await_cm t sid aid (w3, x3) = (w', r)" by (simp add: call_func_def)
      have "leaves f w w3"
        using leaves_trans[OF 1 leaves_trans[OF lv_call_func_scope[OF n sc] lv_run_async_cm[OF rc]]] .
      from lv_await_cm[OF assms(1) this aw] show ?thesis .
    qed
  qed
next
  case (Blocked sid c)
  with assms(2) have "await_coro w t sid c = (w', r)" by (simp add: call_func_def)
  from lv_await_coro[OF assms(1) this] show ?thesis .
next
  case (BlockedCM sid aid st)
  obtain w3 x3 where rc: "cm_resume w sid aid st = (w3, x3)" by (cases "cm_resume w sid aid st")
  from assms(2) BlockedCM rc have aw: "await_cm t sid aid (w3, x3) = (w', r)"
    by (simp add: call_func_def)
  from lv_await_cm[OF assms(1) lv_cm_resume[OF rc] aw] show ?thesis .
qed

lemma lv_run_tasks:
  "\<forall>t\<in>set ts. foreign f t \<Longrightarrow> run_tasks ts w = (w', bs) \<Longrightarrow>
   leaves f w w' \<and> (\<forall>b\<in>set bs. foreign f b)"
proof (induction ts arbitrary: w w' bs)
  case Nil then show ?case by simp
next
  case (Cons t ts)
  obtain w1 r where c: "call_func w t = (w1, r)" by (cases "call_func w t")
  obtain w2 b2 where r: "run_tasks ts w1 = (w2, b2)" by (cases "run_tasks ts w1")
  have ft: "foreign f t" and fts: "\<forall>t\<in>set ts. foreign f t" using Cons.prems(1) by auto
  from Cons.prems(2) c r have e: "w' = w2" "bs = (case r of None \<Rightarrow> [] | Some b \<Rightarrow> [b]) @ b2" by auto
  note 1 = lv_call_func[OF ft c]
  note 2 = Cons.IH[OF fts r]
  show ?case using 1 2 leaves_trans[of f w w1 w2] e by (auto split: option.splits)
qed

lemma run_tasks_append:
  "run_tasks (xs @ ys) w =
     (case run_tasks xs w of (w1, b1) \<Rightarrow> (case run_tasks ys w1 of (w2, b2) \<Rightarrow> (w2, b1 @ b2)))"
  by (induction xs arbitrary: w) (auto split: prod.splits)

section \<open>Stopping through the portal\<close>










text \<open>
  A task that lets an exception out is fatal to the task group, and with it to the
  portal: the group is cancelled and the portal stopped. So a block that catches the
  \<open>BaseException\<close> of its own \<open>portal.call\<close> leaves a portal that is no longer
  running, and the \<open>portal.call(portal.stop, False)\<close> of the exit raises the
  \<open>RuntimeError\<close> of \<open>_check_running\<close>.
\<close>

lemma escaped_exception_is_fatal:
  "event_loop_thread_id (task_exit (w, Some e)) = None \<and> stop_event (task_exit (w, Some e))
   \<and> tg_cancel_called (task_exit (w, Some e))
   \<and> tg_errors (task_exit (w, Some e)) = tg_errors w @ [e]
   \<and> task_exit (w, None) = w"
  by (simp add: task_exit_def stop_def Let_def)

lemma bootstrap_after_fatal_task:
  "snd (call (BlockingPortal 0) 2 (RaisingFunc (BaseError 0))) = Some (Inl (BaseError 0))
   \<and> event_loop_thread_id (fst (call (BlockingPortal 0) 2 (RaisingFunc (BaseError 0)))) = None
   \<and> tg_cancel_called (fst (call (BlockingPortal 0) 2 (RaisingFunc (BaseError 0))))
   \<and> tg_errors (fst (call (BlockingPortal 0) 2 (RaisingFunc (BaseError 0)))) = [BaseError 0]
   \<and> map_option raised (start_blocking_portal 0 2 PortalReady
        (\<lambda>w. (fst (call w 2 (RaisingFunc (BaseError 0))), None))) =
       Some (Some (RuntimeError ''This portal is not running''))"
  by code_simp

section \<open>The adapter of a context manager\<close>

lemma run_coro_plain:
  "\<not> cancel_delivered w sid \<Longrightarrow> plain_outcome c = Some oc \<Longrightarrow>
   \<exists>t. run_coro sid None c w = (w\<lparr>trace := t\<rparr>, Finished oc)"
proof (induction c arbitrary: w)
  case (Return v)
  have "w = w\<lparr>trace := trace w\<rparr>" by simp
  then show ?case using Return by (metis plain_outcome.simps(1) option.inject run_coro.simps(1))
next
  case (Raise e)
  have "w = w\<lparr>trace := trace w\<rparr>" by simp
  then show ?case using Raise by (metis plain_outcome.simps(2) option.inject run_coro.simps(2))
next
  case (Checkpoint k kc)
  let ?w1 = "w\<lparr>trace := trace w @ [ResumeEv sid]\<rparr>"
  have "\<not> cancel_delivered ?w1 sid" using Checkpoint.prems(1) by (simp add: cancel_delivered_def)
  from Checkpoint.IH(1)[OF this] Checkpoint.prems(2)
  obtain t where "run_coro sid None k ?w1 = (?w1\<lparr>trace := t\<rparr>, Finished oc)" by auto
  then show ?case using Checkpoint.prems(1) by auto
next
  case (Started v k)
  then show ?case by auto
qed auto

lemma run_round_idle: "tasks w = [] \<Longrightarrow> run_round w = w"
  by (cases w) (simp add: run_round_def)

lemma run_rounds_idle: "tasks w = [] \<Longrightarrow> run_rounds n w = w"
  by (induction n) (simp_all add: run_round_idle)

lemma run_loop_idle: "tasks w = [] \<Longrightarrow> run_loop w = w"
  by (simp add: run_loop_def run_rounds_idle del: run_rounds.simps)


lemma invoke_callback_adapters: "adapters (invoke_callback tid fid w cb) = adapters w"
  by (cases cb)
     (auto simp: callback_def call_scope_cancel_def new_future_def scope_cancel_def Let_def
        task_done_def split: sum.splits option.splits)

lemma foldl_callbacks_adapters: "adapters (foldl (invoke_callback tid fid) w cbs) = adapters w"
  by (induction cbs arbitrary: w) (simp_all add: invoke_callback_adapters)

lemma finish_exit_adapters: "adapters (task_exit (call_func_finish w fid oc)) = adapters w"
  by (auto simp: task_exit_def stop_def call_func_finish_def cancel_def cancel_raw_def
      set_result_def set_exception_def set_result_raw_def set_exception_raw_def
      invoke_callbacks_def foldl_callbacks_adapters Let_def
      split: outcome.splits sum.splits option.splits prod.splits)

lemma task_exit_futures: "futures (task_exit r) = futures (fst r)"
  by (cases r) (auto simp: task_exit_def stop_def Let_def split: option.splits)

lemma raised_goes_to_future:
  assumes "exc \<noteq> CancelledExc" and "\<not> is_done (futures w fid)" and "fid < next_future w"
  shows "fstate (futures (fst (call_func_finish w fid (Raised exc))) fid) = FINISHED (Inl exc)"
proof -
  obtain w' where s: "set_exception w (loop_thread w) fid exc = Inr w'"
    using set_exception_ok[OF assms(2)] by blast
  have c: "\<not> cancelled (futures w fid)" using assms(2) by (simp add: is_done_def cancelled_def)
  show ?thesis using assms(1) c s set_exception_future[OF s assms(3)]
    by (simp add: call_func_finish_def)
qed

lemma finish_resolves:
  assumes "fstate (futures w fid) = PENDING" "fid < next_future w"
  shows "fstate (futures (task_exit (call_func_finish w fid oc)) fid) =
     (case oc of
        Returned v \<Rightarrow> FINISHED (Inr v)
      | Raised e \<Rightarrow> if e = CancelledExc then CANCELLED else FINISHED (Inl e))"
proof -
  have nd: "\<not> is_done (futures w fid)" "\<not> cancelled (futures w fid)" "\<not> finished (futures w fid)"
    using assms(1) by (simp_all add: is_done_def cancelled_def finished_def)
  show ?thesis
  proof (cases oc)
    case (Returned v)
    obtain w' where s: "set_result w (loop_thread w) fid v = Inr w'" using set_result_ok[OF nd(1)] by blast
    show ?thesis using Returned s nd set_result_future[OF s assms(2)]
      by (simp add: task_exit_futures call_func_finish_def)
  next
    case (Raised e)
    show ?thesis
    proof (cases "e = CancelledExc")
      case True
      then show ?thesis using Raised cancel_future_pending[OF assms]
        by (simp add: task_exit_futures call_func_finish_def)
    next
      case False
      then show ?thesis using Raised raised_goes_to_future[OF False nd(1) assms(2)]
        by (simp add: task_exit_futures)
    qed
  qed
qed


lemma round_waiting:
  assumes "tasks w = [\<lparr>tstate = BlockedCM sid aid AtExitWait, tfuture = xf, tstatus = ts\<rparr>]"
    "exit_event (adapters w aid) = Some ev" "\<not> cancel_delivered w sid" "\<not> events w ev"
  shows "run_round w = w"
proof -
  have "cm_wait (w\<lparr>tasks := []\<rparr>) sid aid = (w\<lparr>tasks := []\<rparr>, CMSuspended AtExitWait)"
    using assms(2,3,4) by (simp add: cm_wait_def cancel_delivered_def event_wait_def)
  then have "run_round w = w\<lparr>tasks := [], tasks := tasks w\<rparr>"
    using assms(1) by (simp add: run_round_def call_func_def cm_resume_def await_cm_def)
  then show ?thesis by simp
qed

lemma rounds_waiting:
  assumes "tasks w = [\<lparr>tstate = BlockedCM sid aid AtExitWait, tfuture = xf, tstatus = ts\<rparr>]"
    "exit_event (adapters w aid) = Some ev" "\<not> cancel_delivered w sid" "\<not> events w ev"
  shows "run_rounds n w = w"
  by (induction n) (simp_all add: round_waiting[OF assms])

lemma cm_task_starts:
  assumes "futures W xf = Future" "futures W ef = Future" "ef \<noteq> xf"
    "enter_future (adapters W aid) = Some ef"
    "\<not> tg_cancel_called W"
    "plain_outcome (aenter (async_cm (adapters W aid))) = Some (Returned v)"
    "tstate T = NotStarted (RunAsyncCM aid)" "tfuture T = xf"
  shows "\<exists>W'. call_func W T =
            (W', Some (T\<lparr>tstate := BlockedCM (next_scope W) aid AtExitWait\<rparr>))
        \<and> fstate (futures W' ef) = FINISHED (Inr v)
        \<and> fstate (futures W' xf) = PENDING
        \<and> adapters W' = (adapters W)(aid := (adapters W aid)\<lparr>exit_event := Some (next_event W)\<rparr>)
        \<and> \<not> events W' (next_event W) \<and> \<not> scopes W' (next_scope W)
        \<and> \<not> tg_cancel_called W' \<and> next_future W' = next_future W
        \<and> event_loop_thread_id W' = event_loop_thread_id W \<and> tasks W' = tasks W"
proof -
  define sid where "sid = next_scope W"
  define ev where "ev = next_event W"
  have nd: "\<not> is_done (futures W xf)" using assms(1) by (simp add: Future_def is_done_def finished_def)
  define w4 where "w4 = W\<lparr>next_scope := Suc (next_scope W), scopes := (scopes W)(next_scope W := False),
        futures := (futures W)(xf := (futures W xf)
           \<lparr>done_callbacks := done_callbacks (futures W xf) @ [CallFuncCallback (next_scope W)]\<rparr>),
        trace := trace W @ [AwaitEv (next_scope W)]\<rparr>"
  have sc: "call_func_scope W xf = (w4, sid)"
    unfolding w4_def sid_def by (rule call_func_scope_pending[OF nd])
  define w5 where "w5 = w4\<lparr>next_event := Suc (next_event w4), events := (events w4)(next_event w4 := False),
                 adapters := (adapters w4)(aid := (adapters w4 aid)\<lparr>exit_event := Some (next_event w4)\<rparr>)\<rparr>"
  have ra: "run_async_cm w4 sid aid = cm_aenter w5 sid aid (aenter (async_cm (adapters w5 aid)))"
    unfolding w5_def by (simp add: run_async_cm_def Let_def)
  have a5: "async_cm (adapters w5 aid) = async_cm (adapters W aid)"
    by (simp add: w5_def w4_def)
  have ncd: "\<not> cancel_delivered w5 sid"
    using assms(5) by (simp add: cancel_delivered_def w5_def w4_def sid_def)
  obtain t where rc: "run_coro sid None (aenter (async_cm (adapters w5 aid))) w5 =
      (w5\<lparr>trace := t\<rparr>, Finished (Returned v))"
    using run_coro_plain[OF ncd] assms(6) a5 by metis
  define w6 where "w6 = w5\<lparr>trace := t\<rparr>"
  have f6: "futures w6 ef = Future" "enter_future (adapters w6 aid) = Some ef"
    using assms(2,3,4) by (simp_all add: w6_def w5_def w4_def)
  define w7 where "w7 = w6\<lparr>futures := (futures w6)(ef := (futures w6 ef)\<lparr>fstate := FINISHED (Inr v)\<rparr>)\<rparr>"
  have sr: "set_result w6 (loop_thread w6) ef v = Inr w7"
    using f6(1)
    by (simp add: set_result_def set_result_raw_def Future_def is_done_def finished_def
        invoke_callbacks_def w7_def)
  have cw: "cm_wait w7 sid aid = (w7, CMSuspended AtExitWait)"
    using assms(5)
    by (simp add: cm_wait_def cancel_delivered_def event_wait_def w7_def w6_def w5_def w4_def sid_def)
  have ca: "cm_aenter w5 sid aid (aenter (async_cm (adapters w5 aid))) = (w7, CMSuspended AtExitWait)"
    unfolding cm_aenter_def rc using sr cw f6(2) by (simp add: w6_def[symmetric])
  have cf: "call_func W T = (w7, Some (T\<lparr>tstate := BlockedCM sid aid AtExitWait\<rparr>))"
    using assms(7,8) by (simp add: call_func_def sc ra ca await_cm_def)
  have fields: "fstate (futures w7 ef) = FINISHED (Inr v)" "fstate (futures w7 xf) = PENDING"
    "adapters w7 = (adapters W)(aid := (adapters W aid)\<lparr>exit_event := Some (next_event W)\<rparr>)"
    "\<not> events w7 (next_event W)" "\<not> scopes w7 (next_scope W)"
    "\<not> tg_cancel_called w7" "next_future w7 = next_future W"
    "event_loop_thread_id w7 = event_loop_thread_id W" "tasks w7 = tasks W"
    using assms(1,2,3,5) by (simp_all add: w7_def w6_def w5_def w4_def Future_def)
  show ?thesis using cf fields unfolding sid_def by blast
qed


lemma cm_enter_returns:
  assumes "check_running w tid = Inr ()" "tasks w = []" "\<not> tg_cancel_called w"
    "plain_outcome (aenter (async_cm (adapters w aid))) = Some (Returned v)"
  shows "\<exists>w' sid xf ev. cm_enter w tid aid = (w', Some (Inr v))
           \<and> waiting_at_exit w' aid sid xf ev
           \<and> check_running w' tid = Inr ()
           \<and> async_cm (adapters w' aid) = async_cm (adapters w aid)"
proof -
  define ef where "ef = next_future w"
  define xf where "xf = Suc (next_future w)"
  define T where "T = \<lparr>tstate = NotStarted (RunAsyncCM aid), tfuture = xf, tstatus = None\<rparr>"
  define w1 where "w1 = fst (new_future w)"
  define w2 where "w2 = w1\<lparr>adapters := (adapters w1)(aid := (adapters w1 aid)\<lparr>enter_future := Some ef\<rparr>)\<rparr>"
  define w3 where "w3 = spawn_task_from_thread (fst (new_future w2)) (RunAsyncCM aid) None xf"
  define w3' where "w3' = w3\<lparr>adapters := (adapters w3)(aid := (adapters w3 aid)\<lparr>exit_future := Some xf\<rparr>)\<rparr>"
  define W0 where "W0 = w3'\<lparr>tasks := []\<rparr>"
  have nf: "new_future w = (w1, ef)" by (simp add: w1_def ef_def new_future_def Let_def)
  have cr2: "check_running w2 tid = Inr ()"
    using assms(1) by (simp add: check_running_def w2_def w1_def new_future_def Let_def)
  have n2: "next_future w2 = xf" by (simp add: w2_def w1_def xf_def new_future_def Let_def)
  have st: "start_task_soon w2 tid (RunAsyncCM aid) = (w3, Inr xf)"
    using cr2 n2 by (simp add: start_task_soon_def w3_def new_future_def Let_def split: prod.splits)
  have e: "cm_enter w tid aid = result_blocking w3' ef"
    unfolding cm_enter_def nf by (simp add: Let_def w2_def[symmetric] st w3'_def)
  have ts: "tasks w3' = [T]"
    using assms(2)
    by (simp add: w3'_def w3_def w2_def w1_def T_def spawn_task_from_thread_def new_future_def Let_def)
  have W0f: "futures W0 xf = Future" "futures W0 ef = Future" "ef \<noteq> xf"
    "enter_future (adapters W0 aid) = Some ef" "\<not> tg_cancel_called W0"
    "async_cm (adapters W0 aid) = async_cm (adapters w aid)"
    "exit_future (adapters W0 aid) = Some xf" "next_future W0 = Suc xf"
    "event_loop_thread_id W0 = event_loop_thread_id w" "tasks W0 = []"
    using assms(3)
    by (simp_all add: W0_def w3'_def w3_def w2_def w1_def xf_def ef_def spawn_task_from_thread_def
        new_future_def Let_def)
  have po: "plain_outcome (aenter (async_cm (adapters W0 aid))) = Some (Returned v)"
    using assms(4) W0f(6) by simp
  define sid where "sid = next_scope W0"
  define ev where "ev = next_event W0"
  define Tb where "Tb = T\<lparr>tstate := BlockedCM sid aid AtExitWait\<rparr>"
  obtain W' where cf: "call_func W0 T = (W', Some Tb)"
    and F: "fstate (futures W' ef) = FINISHED (Inr v)" "fstate (futures W' xf) = PENDING"
      "adapters W' = (adapters W0)(aid := (adapters W0 aid)\<lparr>exit_event := Some ev\<rparr>)"
      "\<not> events W' ev" "\<not> scopes W' sid" "\<not> tg_cancel_called W'" "next_future W' = next_future W0"
      "event_loop_thread_id W' = event_loop_thread_id W0" "tasks W' = tasks W0"
    using cm_task_starts[OF W0f(1,2,3,4,5) po, of T] unfolding sid_def ev_def Tb_def
    by (auto simp: T_def)
  define We where "We = W'\<lparr>tasks := [Tb]\<rparr>"
  have rr: "run_round w3' = We"
    by (simp add: run_round_def ts W0_def[symmetric] cf We_def)
  have wa: "waiting_at_exit We aid sid xf ev"
    using F W0f by (simp add: waiting_at_exit_def We_def Tb_def T_def)
  have wt: "run_rounds n We = We" for n
    by (rule rounds_waiting[where ev = ev and sid = sid and aid = aid and xf = xf and ts = None])
       (use wa in \<open>simp_all add: waiting_at_exit_def cancel_delivered_def\<close>)
  have rl: "run_loop w3' = We"
    unfolding run_loop_def by (simp add: rr wt)
  have res: "result (futures We ef) = Some (Inr v)"
    using F(1) by (simp add: We_def result_def cancelled_def)
  have cr: "check_running We tid = Inr ()"
    using assms(1) F(8) W0f(9) by (simp add: check_running_def We_def)
  have ac: "async_cm (adapters We aid) = async_cm (adapters w aid)"
    using F(3) W0f(6) by (simp add: We_def)
  show ?thesis using e rl res wa cr ac by (auto simp: result_blocking_def Let_def)
qed


lemma cm_task_raises:
  assumes "futures W xf = Future" "futures W ef = Future" "ef \<noteq> xf"
    "enter_future (adapters W aid) = Some ef" "ef < next_future W"
    "\<not> tg_cancel_called W"
    "plain_outcome (aenter (async_cm (adapters W aid))) = Some (Raised e)"
    "tstate T = NotStarted (RunAsyncCM aid)" "tfuture T = xf"
  shows "\<exists>W'. call_func W T = (W', None) \<and> fstate (futures W' ef) = FINISHED (Inl e)"
proof -
  define sid where "sid = next_scope W"
  have nd: "\<not> is_done (futures W xf)" using assms(1) by (simp add: Future_def is_done_def finished_def)
  define w4 where "w4 = W\<lparr>next_scope := Suc (next_scope W), scopes := (scopes W)(next_scope W := False),
        futures := (futures W)(xf := (futures W xf)
           \<lparr>done_callbacks := done_callbacks (futures W xf) @ [CallFuncCallback (next_scope W)]\<rparr>),
        trace := trace W @ [AwaitEv (next_scope W)]\<rparr>"
  have sc: "call_func_scope W xf = (w4, sid)"
    unfolding w4_def sid_def by (rule call_func_scope_pending[OF nd])
  define w5 where "w5 = w4\<lparr>next_event := Suc (next_event w4), events := (events w4)(next_event w4 := False),
                 adapters := (adapters w4)(aid := (adapters w4 aid)\<lparr>exit_event := Some (next_event w4)\<rparr>)\<rparr>"
  have ra: "run_async_cm w4 sid aid = cm_aenter w5 sid aid (aenter (async_cm (adapters w5 aid)))"
    unfolding w5_def by (simp add: run_async_cm_def Let_def)
  have a5: "async_cm (adapters w5 aid) = async_cm (adapters W aid)"
    by (simp add: w5_def w4_def)
  have ncd: "\<not> cancel_delivered w5 sid"
    using assms(6) by (simp add: cancel_delivered_def w5_def w4_def sid_def)
  obtain t where rc: "run_coro sid None (aenter (async_cm (adapters w5 aid))) w5 =
      (w5\<lparr>trace := t\<rparr>, Finished (Raised e))"
    using run_coro_plain[OF ncd] assms(7) a5 by metis
  define w6 where "w6 = w5\<lparr>trace := t\<rparr>"
  have f6: "futures w6 ef = Future" "enter_future (adapters w6 aid) = Some ef"
    using assms(2,3,4) by (simp_all add: w6_def w5_def w4_def)
  define w7 where "w7 = w6\<lparr>futures := (futures w6)(ef := (futures w6 ef)\<lparr>fstate := FINISHED (Inl e)\<rparr>)\<rparr>"
  have sr: "set_exception w6 (loop_thread w6) ef e = Inr w7"
    using f6(1)
    by (simp add: set_exception_def set_exception_raw_def Future_def is_done_def finished_def
        invoke_callbacks_def w7_def)
  have ca: "cm_aenter w5 sid aid (aenter (async_cm (adapters w5 aid))) = (w7, CMFinished (Raised e))"
    unfolding cm_aenter_def rc using sr f6(2) by (simp add: w6_def[symmetric])
  have se: "scope_exit w7 sid (Raised e) = Raised e"
    by (simp add: scope_exit_def w7_def w6_def w5_def w4_def sid_def)
  define Wd where "Wd = task_exit (call_func_finish w7 xf (Raised e))"
  have cf: "call_func W T = (Wd, None)"
    using assms(8,9) by (simp add: call_func_def sc ra ca await_cm_def se Wd_def)
  have d7: "is_done (futures w7 ef)" "ef < next_future w7" "fstate (futures w7 ef) = FINISHED (Inl e)"
    using assms(5) by (simp_all add: w7_def w6_def w5_def w4_def is_done_def finished_def)
  have "futures Wd ef = futures w7 ef"
    unfolding Wd_def by (rule adv_frozen[OF adv_finish_exit d7(2,1)])
  then show ?thesis using cf d7(3) by simp
qed

lemma cm_enter_raises:
  assumes "check_running w tid = Inr ()" "tasks w = []" "\<not> tg_cancel_called w"
    "plain_outcome (aenter (async_cm (adapters w aid))) = Some (Raised e)"
  shows "\<exists>w'. cm_enter w tid aid = (w', Some (Inl e)) \<and> tasks w' = []"
proof -
  define ef where "ef = next_future w"
  define xf where "xf = Suc (next_future w)"
  define T where "T = \<lparr>tstate = NotStarted (RunAsyncCM aid), tfuture = xf, tstatus = None\<rparr>"
  define w1 where "w1 = fst (new_future w)"
  define w2 where "w2 = w1\<lparr>adapters := (adapters w1)(aid := (adapters w1 aid)\<lparr>enter_future := Some ef\<rparr>)\<rparr>"
  define w3 where "w3 = spawn_task_from_thread (fst (new_future w2)) (RunAsyncCM aid) None xf"
  define w3' where "w3' = w3\<lparr>adapters := (adapters w3)(aid := (adapters w3 aid)\<lparr>exit_future := Some xf\<rparr>)\<rparr>"
  define W0 where "W0 = w3'\<lparr>tasks := []\<rparr>"
  have nf: "new_future w = (w1, ef)" by (simp add: w1_def ef_def new_future_def Let_def)
  have cr2: "check_running w2 tid = Inr ()"
    using assms(1) by (simp add: check_running_def w2_def w1_def new_future_def Let_def)
  have n2: "next_future w2 = xf" by (simp add: w2_def w1_def xf_def new_future_def Let_def)
  have st: "start_task_soon w2 tid (RunAsyncCM aid) = (w3, Inr xf)"
    using cr2 n2 by (simp add: start_task_soon_def w3_def new_future_def Let_def split: prod.splits)
  have e: "cm_enter w tid aid = result_blocking w3' ef"
    unfolding cm_enter_def nf by (simp add: Let_def w2_def[symmetric] st w3'_def)
  have ts: "tasks w3' = [T]"
    using assms(2)
    by (simp add: w3'_def w3_def w2_def w1_def T_def spawn_task_from_thread_def new_future_def Let_def)
  have W0f: "futures W0 xf = Future" "futures W0 ef = Future" "ef \<noteq> xf"
    "enter_future (adapters W0 aid) = Some ef" "ef < next_future W0" "\<not> tg_cancel_called W0"
    "async_cm (adapters W0 aid) = async_cm (adapters w aid)"
    using assms(3)
    by (simp_all add: W0_def w3'_def w3_def w2_def w1_def xf_def ef_def spawn_task_from_thread_def
        new_future_def Let_def)
  have po: "plain_outcome (aenter (async_cm (adapters W0 aid))) = Some (Raised e)"
    using assms(4) W0f(7) by simp
  obtain W' where cf: "call_func W0 T = (W', None)" and F: "fstate (futures W' ef) = FINISHED (Inl e)"
    using cm_task_raises[OF W0f(1,2,3,4,5,6) po, of T] by (auto simp: T_def)
  define We where "We = W'\<lparr>tasks := []\<rparr>"
  have rr: "run_round w3' = We"
    by (simp add: run_round_def ts W0_def[symmetric] cf We_def)
  have rl: "run_loop w3' = We"
    unfolding run_loop_def by (simp add: rr run_rounds_idle We_def)
  have res: "result (futures We ef) = Some (Inl e)"
    using F by (simp add: We_def result_def cancelled_def)
  show ?thesis using e rl res by (auto simp: result_blocking_def Let_def We_def)
qed


lemma finish_fresh:
  "futures w f = Future \<Longrightarrow>
   call_func_finish w f (Returned v) =
     (w\<lparr>futures := (futures w)(f := (futures w f)\<lparr>fstate := FINISHED (Inr v)\<rparr>)\<rparr>, None)"
  by (simp add: call_func_finish_def set_result_def set_result_raw_def invoke_callbacks_def
      Future_def cancelled_def is_done_def finished_def)

lemma run_rounds_two: "run_rounds (Suc (Suc n)) w = run_rounds n (run_round (run_round w))"
  by simp

lemma cm_exit_returns:
  assumes "waiting_at_exit w aid sid xf ev" "check_running w tid = Inr ()"
    "plain_outcome (aexit (async_cm (adapters w aid)) info) = Some oc"
  shows "\<exists>w'. cm_exit w tid aid info =
            (w', Some (case oc of
                         Returned v \<Rightarrow> Inr v
                       | Raised e \<Rightarrow> Inl (if e = CancelledExc then CancelledError else e)))
          \<and> tasks w' = []"
proof -
  define Tb where "Tb = \<lparr>tstate = BlockedCM sid aid AtExitWait, tfuture = xf, tstatus = None\<rparr>"
  have wa: "tasks w = [Tb]" "exit_future (adapters w aid) = Some xf"
    "exit_event (adapters w aid) = Some ev" "fstate (futures w xf) = PENDING" "xf < next_future w"
    "\<not> events w ev" "\<not> scopes w sid" "\<not> tg_cancel_called w"
    using assms(1) by (simp_all add: waiting_at_exit_def Tb_def)
  define w1 where "w1 = w\<lparr>adapters := (adapters w)(aid := (adapters w aid)\<lparr>exit_exc_info := Some info\<rparr>)\<rparr>"
  define f3 where "f3 = next_future w"
  define T3 where "T3 = \<lparr>tstate = NotStarted (EventSet ev), tfuture = f3, tstatus = None\<rparr>"
  define ws where "ws = spawn_task_from_thread (fst (new_future w1)) (EventSet ev) None f3"
  define W0 where "W0 = ws\<lparr>tasks := []\<rparr>"
  have ee: "exit_event (adapters w1 aid) = Some ev" using wa(3) by (simp add: w1_def)
  have cr1: "check_running w1 tid = Inr ()" using assms(2) by (simp add: check_running_def w1_def)
  have c: "call w1 tid (EventSet ev) = result_blocking ws f3"
    using cr1 by (simp add: call_def start_task_soon_def new_future_def Let_def ws_def f3_def w1_def)
  have ts: "tasks ws = [Tb, T3]"
    using wa(1) by (simp add: ws_def w1_def T3_def spawn_task_from_thread_def new_future_def Let_def)
  have W0f: "futures W0 f3 = Future" "futures W0 xf = futures w xf" "xf \<noteq> f3"
    "adapters W0 = adapters w1" "events W0 = events w" "scopes W0 = scopes w"
    "tg_cancel_called W0 = tg_cancel_called w" "next_future W0 = Suc f3"
    using wa(5)
    by (simp_all add: W0_def ws_def w1_def f3_def spawn_task_from_thread_def new_future_def Let_def)
  \<comment> \<open>the first round: the adapter's task still waits, the other task sets the event\<close>
  have cw0: "cm_wait W0 sid aid = (W0, CMSuspended AtExitWait)"
    using wa(6,7,8) ee by (simp add: cm_wait_def cancel_delivered_def event_wait_def W0f)
  have cfb: "call_func W0 Tb = (W0, Some Tb)"
    by (simp add: call_func_def Tb_def cm_resume_def cw0 await_cm_def)
  define Wa where "Wa = W0\<lparr>events := (events W0)(ev := True)\<rparr>"
  define Wb where "Wb = Wa\<lparr>futures := (futures Wa)(f3 := (futures Wa f3)\<lparr>fstate := FINISHED (Inr PyNone)\<rparr>)\<rparr>"
  have fa: "futures Wa f3 = Future" by (simp add: Wa_def W0f)
  have cf3: "call_func W0 T3 = (Wb, None)"
    by (simp add: call_func_def T3_def Wa_def[symmetric] finish_fresh[OF fa] task_exit_def
        Wb_def[symmetric])
  have rt: "run_tasks [Tb, T3] W0 = (Wb, [Tb])" by (simp add: cfb cf3)
  define R1 where "R1 = Wb\<lparr>tasks := [Tb]\<rparr>"
  have r1: "run_round ws = R1"
    unfolding run_round_def ts W0_def[symmetric] rt R1_def by simp
  \<comment> \<open>the second round: the adapter's task runs \<open>__aexit__\<close> and ends\<close>
  define V0 where "V0 = R1\<lparr>tasks := []\<rparr>"
  have V0f: "fstate (futures V0 f3) = FINISHED (Inr PyNone)" "fstate (futures V0 xf) = PENDING"
    "adapters V0 = adapters w1" "events V0 ev" "\<not> scopes V0 sid" "\<not> tg_cancel_called V0"
    "next_future V0 = Suc f3"
    using wa(4,7,8) W0f
    by (simp_all add: V0_def R1_def Wb_def Wa_def)
  have ncd: "\<not> cancel_delivered V0 sid" using V0f(5,6) by (simp add: cancel_delivered_def)
  obtain t where rc: "run_coro sid None (aexit (async_cm (adapters w aid)) info) V0 =
      (V0\<lparr>trace := t\<rparr>, Finished oc)"
    using run_coro_plain[OF ncd assms(3)] by blast
  define Wc where "Wc = V0\<lparr>trace := t\<rparr>"
  have cwv: "cm_wait V0 sid aid = (Wc, CMFinished oc)"
    using ncd V0f(4) ee
    by (simp add: cm_wait_def event_wait_def V0f(3) w1_def cm_aexit_def rc Wc_def)
  have se: "scope_exit Wc sid oc = oc" using V0f(5) by (simp add: scope_exit_def Wc_def)
  define Wd where "Wd = task_exit (call_func_finish Wc xf oc)"
  have cfv: "call_func V0 Tb = (Wd, None)"
    by (simp add: call_func_def Tb_def cm_resume_def cwv await_cm_def se Wd_def)
  define R2 where "R2 = Wd\<lparr>tasks := []\<rparr>"
  have r2: "run_round R1 = R2"
    by (simp add: run_round_def R1_def V0_def[unfolded R1_def, symmetric] cfv R2_def)
  have Wcf: "fstate (futures Wc xf) = PENDING" "xf < next_future Wc"
    "is_done (futures Wc f3)" "f3 < next_future Wc" "fstate (futures Wc f3) = FINISHED (Inr PyNone)"
    using V0f wa(5) by (simp_all add: Wc_def is_done_def finished_def f3_def)
  have x: "fstate (futures Wd xf) =
     (case oc of Returned v \<Rightarrow> FINISHED (Inr v)
      | Raised e \<Rightarrow> if e = CancelledExc then CANCELLED else FINISHED (Inl e))"
    unfolding Wd_def by (rule finish_resolves[OF Wcf(1,2)])
  have f: "futures Wd f3 = futures Wc f3"
    unfolding Wd_def by (rule adv_frozen[OF adv_finish_exit Wcf(4,3)])
  have ad: "adapters Wd = adapters w1"
    unfolding Wd_def by (simp add: finish_exit_adapters Wc_def V0f(3))
  have tr: "tasks R2 = []" by (simp add: R2_def)
  have rl: "run_loop ws = R2"
    unfolding run_loop_def ts
    by (simp add: eval_nat_numeral r1 r2 run_rounds_idle[OF tr] run_round_idle[OF tr]
        del: run_rounds.simps(2))
       (simp add: r1 r2 run_rounds_idle[OF tr] run_round_idle[OF tr])
  have c2: "call w1 tid (EventSet ev) = (R2, Some (Inr PyNone))"
    using f Wcf(5) by (simp add: c result_blocking_def Let_def rl R2_def result_def cancelled_def)
  have xfr: "exit_future (adapters R2 aid) = Some xf"
    using wa(2) by (simp add: R2_def ad w1_def)
  have res: "result (futures R2 xf) =
     Some (case oc of Returned v \<Rightarrow> Inr v
           | Raised e \<Rightarrow> Inl (if e = CancelledExc then CancelledError else e))"
    using x by (auto simp: R2_def result_def cancelled_def split: outcome.splits)
  have "cm_exit w tid aid info = (R2, result (futures R2 xf))"
    unfolding cm_exit_def
    by (simp add: Let_def w1_def[symmetric] ee c2 xfr result_blocking_def run_loop_idle[OF tr])
  then show ?thesis using res tr by simp
qed


lemma wrap_fields:
  assumes "wrap_async_context_manager w0 cm = (w, aid)"
  shows "async_cm (adapters w aid) = cm" "check_running w tid = check_running w0 tid"
    "tasks w = tasks w0" "tg_cancel_called w = tg_cancel_called w0"
  using assms by (auto simp: wrap_async_context_manager_def Let_def check_running_def)

text \<open>
  The adapter on a running portal. The portal is running, its task group holds no other task
  and is not cancelled, the caller's thread \<open>tid\<close> is not the thread of the event loop,
  and the coroutines of \<open>cm\<close> neither wait for the portal to stop nor stop it. Then for
  the adapter of \<open>wrap_async_context_manager(cm)\<close>:

  \<^item> if \<open>__aenter__\<close> raises \<open>e\<close>, the synchronous enter raises \<open>e\<close> and no task is
    left;
  \<^item> if \<open>__aenter__\<close> returns \<open>v\<close>, the synchronous enter returns \<open>v\<close>, and one task
    is left, suspended at the exit event that is not set;
  \<^item> the synchronous exit with the exception information \<open>info\<close> then returns what
    \<open>__aexit__(info)\<close> returns, or raises what it raises (\<open>CancelledError\<close> for the
    scheduler's cancellation exception), through the exit future, and no task is left.
\<close>

lemma adapter_on_idle_portal:
  assumes "wrap_async_context_manager w0 cm = (w, aid)"
    and "check_running w0 tid = Inr ()" and "tasks w0 = []" and "\<not> tg_cancel_called w0"
    and "plain_outcome (aenter cm) = Some oc1"
    and "plain_outcome (aexit cm info) = Some oc2"
  shows "case oc1 of
           Raised e \<Rightarrow> (\<exists>w'. cm_enter w tid aid = (w', Some (Inl e)) \<and> tasks w' = [])
         | Returned v \<Rightarrow>
             (\<exists>w' sid xf ev. cm_enter w tid aid = (w', Some (Inr v))
                \<and> waiting_at_exit w' aid sid xf ev
                \<and> (\<exists>w''. cm_exit w' tid aid info =
                       (w'', Some (case oc2 of
                                     Returned v2 \<Rightarrow> Inr v2
                                   | Raised e2 \<Rightarrow>
                                       Inl (if e2 = CancelledExc then CancelledError else e2)))
                     \<and> tasks w'' = []))"
proof -
  note wf = wrap_fields[OF assms(1)]
  have h: "check_running w tid = Inr ()" "tasks w = []" "\<not> tg_cancel_called w"
    using assms(2,3,4) wf by simp_all
  show ?thesis
  proof (cases oc1)
    case (Raised e)
    then show ?thesis using cm_enter_raises[OF h, of aid e] assms(5) wf(1) by simp
  next
    case (Returned v)
    have po: "plain_outcome (aenter (async_cm (adapters w aid))) = Some (Returned v)"
      using assms(5) Returned wf(1) by simp
    obtain w' sid xf ev where e: "cm_enter w tid aid = (w', Some (Inr v))"
      and wa: "waiting_at_exit w' aid sid xf ev" and cr: "check_running w' tid = Inr ()"
      and ac: "async_cm (adapters w' aid) = async_cm (adapters w aid)"
      using cm_enter_returns[OF h po] by blast
    have po2: "plain_outcome (aexit (async_cm (adapters w' aid)) info) = Some oc2"
      using assms(6) ac wf(1) by simp
    from cm_exit_returns[OF wa cr po2] e wa Returned show ?thesis by auto
  qed
qed

lemma adapter_on_idle_portal_example:
  "check_running (BlockingPortal 0) 2 = Inr () \<and> tasks (BlockingPortal 0) = []
   \<and> \<not> tg_cancel_called (BlockingPortal 0)
   \<and> plain_outcome (Checkpoint (Return (PyInt 5)) (Raise CancelledExc)) = Some (Returned (PyInt 5))
   \<and> (\<exists>w' sid xf ev.
         cm_enter (fst (wrap_async_context_manager (BlockingPortal 0)
             \<lparr>aenter = Checkpoint (Return (PyInt 5)) (Raise CancelledExc),
              aexit = (\<lambda>i. Return (PyInt 9))\<rparr>)) 2 0 = (w', Some (Inr (PyInt 5)))
         \<and> waiting_at_exit w' 0 sid xf ev
         \<and> (\<exists>w''. cm_exit w' 2 0 None = (w'', Some (Inr (PyInt 9))) \<and> tasks w'' = []))"
proof -
  let ?cm = "\<lparr>aenter = Checkpoint (Return (PyInt 5)) (Raise CancelledExc),
              aexit = (\<lambda>i. Return (PyInt 9))\<rparr>"
  have h1: "wrap_async_context_manager (BlockingPortal 0) ?cm =
         (fst (wrap_async_context_manager (BlockingPortal 0) ?cm), 0)"
    by (simp add: wrap_async_context_manager_def Let_def BlockingPortal_def)
  have h2: "check_running (BlockingPortal 0) 2 = Inr ()"
    by (simp add: check_running_def BlockingPortal_def)
  have h3: "tasks (BlockingPortal 0) = []" "\<not> tg_cancel_called (BlockingPortal 0)"
    by (simp_all add: BlockingPortal_def)
  have h5: "plain_outcome (aenter ?cm) = Some (Returned (PyInt 5))" by simp
  have h6: "plain_outcome (aexit ?cm None) = Some (Returned (PyInt 9))" by simp
  note t = adapter_on_idle_portal[OF h1 h2 h3 h5 h6]
  show ?thesis using t h2 h3 by simp
qed

text \<open>
  Claim C9. Thread 1 wraps a context manager on the portal of thread 0 and enters the
  adapter: the synchronous enter returns the value of \<open>__aenter__\<close>, and the task is
  left suspended at its exit event. The docstring of \<open>wrap_async_context_manager\<close>
  promises a task "that will call both \<open>__aenter__()\<close> and \<open>__aexit__()\<close>, stopping
  in the middle until the synchronous context manager exits", and \<open>__exit__\<close> is there
  to release it with \<open>self._portal.call(self._exit_event.set)\<close>. But \<open>call\<close>
  begins with \<open>_check_running\<close>: when the portal has been stopped inside the block
  (\<open>portal.call(portal.stop)\<close>, which leaves running tasks to finish), the synchronous
  exit raises the \<open>RuntimeError\<close> of the guard, the event is never set, the task stays
  suspended and \<open>__aexit__\<close> is never called. With the portal still running, the
  same exit returns what \<open>__aexit__\<close> returns (the last line).
\<close>

theorem adapter_exit_lost:
  "snd (cm_enter (fst (wrap_async_context_manager (BlockingPortal 0)
          \<lparr>aenter = Return (PyInt 5), aexit = (\<lambda>i. Return PyNone)\<rparr>)) 1 0) = Some (Inr (PyInt 5))
   \<and> map tstate (tasks (fst (cm_enter (fst (wrap_async_context_manager (BlockingPortal 0)
          \<lparr>aenter = Return (PyInt 5), aexit = (\<lambda>i. Return PyNone)\<rparr>)) 1 0))) =
        [BlockedCM 0 0 AtExitWait]
   \<and> snd (call (fst (cm_enter (fst (wrap_async_context_manager (BlockingPortal 0)
          \<lparr>aenter = Return (PyInt 5), aexit = (\<lambda>i. Return PyNone)\<rparr>)) 1 0)) 1 (PortalStop False)) =
        Some (Inr PyNone)
   \<and> snd (cm_exit (fst (call (fst (cm_enter (fst (wrap_async_context_manager (BlockingPortal 0)
          \<lparr>aenter = Return (PyInt 5), aexit = (\<lambda>i. Return PyNone)\<rparr>)) 1 0)) 1 (PortalStop False)))
        1 0 None) = Some (Inl (RuntimeError ''This portal is not running''))
   \<and> map tstate (tasks (fst (cm_exit (fst (call (fst (cm_enter (fst (wrap_async_context_manager
          (BlockingPortal 0) \<lparr>aenter = Return (PyInt 5), aexit = (\<lambda>i. Return PyNone)\<rparr>)) 1 0)) 1
          (PortalStop False))) 1 0 None))) = [BlockedCM 0 0 AtExitWait]
   \<and> map_option (\<lambda>e. events (fst (cm_exit (fst (call (fst (cm_enter (fst (wrap_async_context_manager
          (BlockingPortal 0) \<lparr>aenter = Return (PyInt 5), aexit = (\<lambda>i. Return PyNone)\<rparr>)) 1 0)) 1
          (PortalStop False))) 1 0 None)) e)
        (exit_event (adapters (fst (cm_exit (fst (call (fst (cm_enter (fst (wrap_async_context_manager
          (BlockingPortal 0) \<lparr>aenter = Return (PyInt 5), aexit = (\<lambda>i. Return PyNone)\<rparr>)) 1 0)) 1
          (PortalStop False))) 1 0 None)) 0)) = Some False
   \<and> snd (cm_exit (fst (cm_enter (fst (wrap_async_context_manager (BlockingPortal 0)
          \<lparr>aenter = Return (PyInt 5), aexit = (\<lambda>i. Return PyNone)\<rparr>)) 1 0)) 1 0 None) =
        Some (Inr PyNone)"
  by code_simp

section \<open>The call made by the callback\<close>

text \<open>
  \<open>call_scope_cancel\<close>, which the callback of \<open>_call_func\<close> uses, is \<open>call\<close> with
  \<open>scope.cancel\<close> on a portal whose task group is idle.
\<close>

lemma call_scope_cancel_is_call:
  assumes "tasks w = []"
  shows "call w tid (ScopeCancel sid) =
     (case call_scope_cancel w tid sid of (w', r) \<Rightarrow> (w', Some r))"
proof (cases "check_running w tid")
  case (Inl e)
  then show ?thesis by (simp add: call_def start_task_soon_def call_scope_cancel_def)
next
  case (Inr u)
  define f where "f = next_future w"
  define T where "T = \<lparr>tstate = NotStarted (ScopeCancel sid), tfuture = f, tstatus = None\<rparr>"
  define ws where "ws = spawn_task_from_thread (fst (new_future w)) (ScopeCancel sid) None f"
  define W0 where "W0 = ws\<lparr>tasks := []\<rparr>"
  have c: "call w tid (ScopeCancel sid) = result_blocking ws f"
    using Inr by (simp add: call_def start_task_soon_def new_future_def Let_def ws_def f_def)
  have ts: "tasks ws = [T]"
    using assms by (simp add: ws_def T_def spawn_task_from_thread_def new_future_def Let_def)
  define Wa where "Wa = scope_cancel W0 sid"
  have fa: "futures Wa f = Future"
    by (simp add: Wa_def scope_cancel_def W0_def ws_def f_def spawn_task_from_thread_def
        new_future_def Let_def)
  define Wb where "Wb = Wa\<lparr>futures := (futures Wa)(f := (futures Wa f)\<lparr>fstate := FINISHED (Inr PyNone)\<rparr>)\<rparr>"
  have cf: "call_func W0 T = (Wb, None)"
    by (simp add: call_func_def T_def Wa_def[symmetric] finish_fresh[OF fa] task_exit_def
        Wb_def[symmetric])
  define R where "R = Wb\<lparr>tasks := []\<rparr>"
  have rr: "run_round ws = R"
    unfolding run_round_def ts W0_def[symmetric] by (simp add: cf R_def)
  have tr: "tasks R = []" by (simp add: R_def)
  have rl: "run_loop ws = R"
    unfolding run_loop_def ts by (simp add: eval_nat_numeral rr run_rounds_idle[OF tr])
  have res: "result (futures R f) = Some (Inr PyNone)"
    by (simp add: R_def Wb_def result_def cancelled_def)
  have eq: "fst (call_scope_cancel w tid sid) = R" "snd (call_scope_cancel w tid sid) = Inr PyNone"
    using Inr assms
    by (cases w; simp add: call_scope_cancel_def R_def Wb_def Wa_def W0_def ws_def f_def
        spawn_task_from_thread_def new_future_def scope_cancel_def Let_def Future_def)+
  have "call_scope_cancel w tid sid = (R, Inr PyNone)"
    using eq by (simp add: prod_eq_iff)
  then show ?thesis
    by (simp add: c result_blocking_def Let_def rl res)
qed

section \<open>The states of a portal are well formed\<close>

text \<open>
  A new portal is well formed, and every method of the portal, of a future in its store
  and of an adapter keeps the state well formed, as does the running loop.
\<close>

lemma kr_refl [simp]: "keeps_refs w w" by (auto simp: keeps_refs_def)

lemma kr_trans: "keeps_refs a b \<Longrightarrow> keeps_refs b c \<Longrightarrow> keeps_refs a c"
  unfolding keeps_refs_def by (metis (no_types, lifting) le_trans)

lemma kr_scope_cancel: "keeps_refs w (scope_cancel w sid)"
  by (auto simp: keeps_refs_def scope_cancel_def)

lemma kr_call_scope_cancel: "keeps_refs w (fst (call_scope_cancel w tid sid))"
  by (auto simp: keeps_refs_def call_scope_cancel_def new_future_def scope_cancel_def Let_def
      Future_def split: sum.splits if_splits)

lemma kr_callback: "keeps_refs w (callback w tid fid sid)"
  by (simp add: callback_def kr_call_scope_cancel)

lemma kr_upd_state:
  "keeps_refs w (w\<lparr>futures := (futures w)(fid := (futures w fid)\<lparr>fstate := st\<rparr>)\<rparr>)"
  by (auto simp: keeps_refs_def split: if_splits)

lemma kr_task_done: "keeps_refs w (task_done w fid tsf)"
  by (auto simp: task_done_def Let_def cancel_raw_def set_exception_raw_def kr_upd_state
      split: option.splits sum.splits if_splits)

lemma kr_invoke_callback: "keeps_refs w (invoke_callback tid fid w cb)"
  by (cases cb) (simp_all add: kr_callback kr_task_done)

lemma kr_foldl: "keeps_refs w (foldl (invoke_callback tid fid) w cbs)"
proof (induction cbs arbitrary: w)
  case Nil show ?case by simp
next
  case (Cons c cbs)
  show ?case using kr_trans[OF kr_invoke_callback Cons.IH] by simp
qed

lemma kr_invoke_callbacks: "keeps_refs w (invoke_callbacks w tid fid)"
  by (simp add: invoke_callbacks_def kr_foldl)

lemma kr_cancel: "keeps_refs w (fst (cancel w tid fid))"
  unfolding cancel_def cancel_raw_def
  by (auto simp: Let_def fun_upd_idem intro!: kr_trans[OF kr_upd_state kr_invoke_callbacks])

lemma kr_set_result: "set_result w tid fid v = Inr w' \<Longrightarrow> keeps_refs w w'"
  unfolding set_result_def set_result_raw_def
  by (auto split: if_splits intro!: kr_trans[OF kr_upd_state kr_invoke_callbacks])

lemma kr_set_exception: "set_exception w tid fid v = Inr w' \<Longrightarrow> keeps_refs w w'"
  unfolding set_exception_def set_exception_raw_def
  by (auto split: if_splits intro!: kr_trans[OF kr_upd_state kr_invoke_callbacks])

lemma kr_upd_callbacks:
  "keeps_refs w (w\<lparr>futures := (futures w)(fid := (futures w fid)
      \<lparr>done_callbacks := done_callbacks (futures w fid) @ [CallFuncCallback sid]\<rparr>)\<rparr>)"
  by (auto simp: keeps_refs_def split: if_splits)

lemma kr_add_call_func_callback:
  "keeps_refs w (add_done_callback w tid fid (CallFuncCallback sid))"
  unfolding add_done_callback_def Let_def
  by (auto intro!: kr_upd_callbacks kr_callback)

lemma kr_stop: "keeps_refs w (stop w b)"
  by (auto simp: keeps_refs_def stop_def Let_def)

lemma kr_trace: "keeps_refs w (w\<lparr>trace := t\<rparr>)" by (auto simp: keeps_refs_def)

lemma kr_run_coro: "run_coro sid ts c w = (w', r) \<Longrightarrow> keeps_refs w w'"
proof (induction sid ts c w arbitrary: w' r rule: run_coro.induct)
  case (3 sid ts k kc w)
  then show ?case by (auto split: if_splits intro: kr_trans[OF kr_trace])
next
  case (4 sid ts v k w)
  then show ?case
    by (auto simp: started_def split: option.splits sum.splits intro: kr_trans[OF kr_set_result])
next
  case (5 sid ts k kc w)
  then show ?case by (auto split: if_splits option.splits intro: kr_trans[OF kr_trace])
next
  case (6 sid ts b k w)
  then show ?case by (auto intro: kr_trans[OF kr_stop])
qed auto

lemma kr_scope_alloc: "keeps_refs w (w\<lparr>next_scope := a, scopes := b\<rparr>)"
  by (auto simp: keeps_refs_def)

lemma kr_call_func_scope: "call_func_scope w fid = (w', sid) \<Longrightarrow> keeps_refs w w'"
proof -
  assume a: "call_func_scope w fid = (w', sid)"
  let ?w1 = "w\<lparr>next_scope := Suc (next_scope w), scopes := (scopes w)(next_scope w := False)\<rparr>"
  let ?w2 = "if cancelled (futures ?w1 fid) then scope_cancel ?w1 (next_scope w)
             else add_done_callback ?w1 (loop_thread ?w1) fid (CallFuncCallback (next_scope w))"
  have 1: "keeps_refs w ?w1" by (rule kr_scope_alloc)
  have 2: "keeps_refs ?w1 ?w2" using kr_scope_cancel kr_add_call_func_callback by presburger
  have 3: "w' = ?w2\<lparr>trace := trace ?w2 @ [AwaitEv (next_scope w)]\<rparr>"
    using a unfolding call_func_scope_def Let_def by auto
  show ?thesis unfolding 3 by (rule kr_trans[OF kr_trans[OF 1 2] kr_trace])
qed

lemma kr_call_func_finish: "call_func_finish w fid oc = (w', r) \<Longrightarrow> keeps_refs w w'"
  unfolding call_func_finish_def
  by (auto split: outcome.splits if_splits sum.splits
      intro: kr_set_result kr_set_exception kr_cancel)

lemma kr_tg_errors: "keeps_refs w (w\<lparr>tg_errors := t\<rparr>)" by (auto simp: keeps_refs_def)

lemma kr_task_exit: "keeps_refs w (task_exit (w, r))"
  by (cases r) (auto simp: task_exit_def keeps_refs_def stop_def Let_def)

lemma kr_finish_exit: "keeps_refs w (task_exit (call_func_finish w fid oc))"
proof -
  obtain w' r where f: "call_func_finish w fid oc = (w', r)" by (cases "call_func_finish w fid oc")
  show ?thesis unfolding f using kr_trans[OF kr_call_func_finish[OF f] kr_task_exit] .
qed

lemma kr_await_coro: "await_coro w t sid c = (w', r) \<Longrightarrow> keeps_refs w w'"
  unfolding await_coro_def
  by (auto split: prod.splits run.splits
      intro: kr_trans[OF kr_run_coro kr_finish_exit] kr_run_coro)

lemma kr_cm_aexit: "cm_aexit w sid c = (w', r) \<Longrightarrow> keeps_refs w w'"
  unfolding cm_aexit_def by (auto split: prod.splits run.splits intro: kr_run_coro)

lemma kr_cm_wait: "cm_wait w sid aid = (w', r) \<Longrightarrow> keeps_refs w w'"
  unfolding cm_wait_def
  by (auto split: option.splits if_splits intro: kr_cm_aexit kr_trace)

lemma kr_cm_aenter: "cm_aenter w sid aid c = (w', r) \<Longrightarrow> keeps_refs w w'"
  unfolding cm_aenter_def
  by (auto split: prod.splits run.splits option.splits outcome.splits sum.splits
      intro: kr_run_coro kr_trans[OF kr_run_coro kr_set_exception]
        kr_trans[OF kr_run_coro kr_trans[OF kr_set_result kr_cm_wait]])

lemma kr_event_alloc:
  "keeps_refs w (w\<lparr>next_event := a, events := b,
      adapters := (adapters w)(aid := (adapters w aid)\<lparr>exit_event := e\<rparr>)\<rparr>)"
  by (auto simp: keeps_refs_def)

lemma kr_run_async_cm: "run_async_cm w sid aid = (w', r) \<Longrightarrow> keeps_refs w w'"
  unfolding run_async_cm_def Let_def
  by (rule kr_trans[OF kr_event_alloc kr_cm_aenter])

lemma kr_cm_resume: "cm_resume w sid aid st = (w', r) \<Longrightarrow> keeps_refs w w'"
  unfolding cm_resume_def
  by (auto split: cm_state.splits intro: kr_cm_aenter kr_cm_wait kr_cm_aexit)

lemma kr_await_cm: "keeps_refs w w1 \<Longrightarrow> await_cm t sid aid (w1, x) = (w', r) \<Longrightarrow> keeps_refs w w'"
  unfolding await_cm_def
  by (auto split: cm_run.splits intro: kr_trans[OF _ kr_finish_exit])

lemma kr_apply_func: "apply_func func w = (w', r) \<Longrightarrow> keeps_refs w w'"
  by (cases func) (auto simp: keeps_refs_def scope_cancel_def)

lemma kr_call_func:
  assumes "call_func w t = (w', r)"
  shows "keeps_refs w w' \<and> (\<forall>b. r = Some b \<longrightarrow> same_refs b t)"
proof (cases "tstate t")
  case (NotStarted func)
  obtain w1 x where ap: "apply_func func w = (w1, x)" by (cases "apply_func func w")
  note 1 = kr_apply_func[OF ap]
  show ?thesis
  proof (cases x)
    case (Inl e)
    with assms NotStarted ap have "w' = task_exit (call_func_finish w1 (tfuture t) (Raised e))" "r = None"
      by (simp_all add: call_func_def)
    then show ?thesis using kr_trans[OF 1 kr_finish_exit] by simp
  next
    case (Inr rv)
    show ?thesis
    proof (cases rv)
      case (Value v)
      with assms NotStarted ap Inr
      have "w' = task_exit (call_func_finish w1 (tfuture t) (Returned v))" "r = None"
        by (simp_all add: call_func_def)
      then show ?thesis using kr_trans[OF 1 kr_finish_exit] by simp
    next
      case (Coroutine c)
      obtain w2 sid where sc: "call_func_scope w1 (tfuture t) = (w2, sid)"
        by (cases "call_func_scope w1 (tfuture t)")
      with assms NotStarted ap Inr Coroutine have aw: "await_coro w2 t sid c = (w', r)"
        by (simp add: call_func_def)
      have "keeps_refs w w'"
        using kr_trans[OF 1 kr_trans[OF kr_call_func_scope[OF sc] kr_await_coro[OF aw]]] .
      moreover have "\<forall>b. r = Some b \<longrightarrow> same_refs b t"
        using aw by (auto simp: await_coro_def same_refs_def split: prod.splits run.splits)
      ultimately show ?thesis by simp
    next
      case (AsyncCMCoroutine aid)
      obtain w2 sid where sc: "call_func_scope w1 (tfuture t) = (w2, sid)"
        by (cases "call_func_scope w1 (tfuture t)")
      obtain w3 x3 where rc: "run_async_cm w2 sid aid = (w3, x3)" by (cases "run_async_cm w2 sid aid")
      from assms NotStarted ap Inr AsyncCMCoroutine sc rc
      have aw: "await_cm t sid aid (w3, x3) = (w', r)" by (simp add: call_func_def)
      have "keeps_refs w w'"
        using kr_await_cm[OF kr_trans[OF 1 kr_trans[OF kr_call_func_scope[OF sc] kr_run_async_cm[OF rc]]] aw] .
      moreover have "\<forall>b. r = Some b \<longrightarrow> same_refs b t"
        using aw by (auto simp: await_cm_def same_refs_def split: cm_run.splits)
      ultimately show ?thesis by simp
    qed
  qed
next
  case (Blocked sid c)
  with assms have aw: "await_coro w t sid c = (w', r)" by (simp add: call_func_def)
  have "\<forall>b. r = Some b \<longrightarrow> same_refs b t"
    using aw by (auto simp: await_coro_def same_refs_def split: prod.splits run.splits)
  then show ?thesis using kr_await_coro[OF aw] by simp
next
  case (BlockedCM sid aid st)
  obtain w3 x3 where rc: "cm_resume w sid aid st = (w3, x3)" by (cases "cm_resume w sid aid st")
  from assms BlockedCM rc have aw: "await_cm t sid aid (w3, x3) = (w', r)"
    by (simp add: call_func_def)
  have "\<forall>b. r = Some b \<longrightarrow> same_refs b t"
    using aw by (auto simp: await_cm_def same_refs_def split: cm_run.splits)
  then show ?thesis using kr_await_cm[OF kr_cm_resume[OF rc] aw] by simp
qed

lemma kr_run_tasks:
  "run_tasks ts w = (w', bs) \<Longrightarrow>
   keeps_refs w w' \<and> (\<forall>b\<in>set bs. \<exists>t\<in>set ts. same_refs b t)"
proof (induction ts arbitrary: w w' bs)
  case Nil then show ?case by simp
next
  case (Cons t ts)
  obtain w1 r where c: "call_func w t = (w1, r)" by (cases "call_func w t")
  obtain w2 b2 where r: "run_tasks ts w1 = (w2, b2)" by (cases "run_tasks ts w1")
  from Cons.prems c r have e: "w' = w2" "bs = (case r of None \<Rightarrow> [] | Some b \<Rightarrow> [b]) @ b2" by auto
  note 1 = kr_call_func[OF c]
  note 2 = Cons.IH[OF r]
  have "keeps_refs w w'" using 1 2 kr_trans e by blast
  moreover have "\<forall>b\<in>set bs. \<exists>t'\<in>set (t # ts). same_refs b t'"
    using 1 2 e by (auto split: option.splits)
  ultimately show ?case by simp
qed

lemma well_formed_later:
  assumes "well_formed w" "keeps_refs (w\<lparr>tasks := []\<rparr>) w'"
    "\<forall>b\<in>set bs. \<exists>t\<in>set (tasks w). same_refs b t"
  shows "well_formed (w'\<lparr>tasks := bs\<rparr>)"
  using assms unfolding well_formed_def keeps_refs_def same_refs_def
  by simp (metis (no_types, lifting) less_le_trans)

lemma wf_run_round: "well_formed w \<Longrightarrow> well_formed (run_round w)"
proof -
  assume wf: "well_formed w"
  obtain w' bs where r: "run_tasks (tasks w) (w\<lparr>tasks := []\<rparr>) = (w', bs)"
    by (cases "run_tasks (tasks w) (w\<lparr>tasks := []\<rparr>)")
  show ?thesis unfolding run_round_def r
    using well_formed_later[OF wf] kr_run_tasks[OF r] by simp
qed

lemma wf_run_rounds: "well_formed w \<Longrightarrow> well_formed (run_rounds n w)"
  by (induction n arbitrary: w) (simp_all add: wf_run_round)

lemma wf_run_loop: "well_formed w \<Longrightarrow> well_formed (run_loop w)"
  by (simp add: run_loop_def wf_run_rounds del: run_rounds.simps)

lemma wf_new_portal: "well_formed (BlockingPortal lt)"
  by (simp add: well_formed_def BlockingPortal_def Future_def)

lemma wf_stop: "well_formed w \<Longrightarrow> well_formed (stop w b)"
  by (simp add: well_formed_def stop_def Let_def)

lemma wf_start_task_soon: "well_formed w \<Longrightarrow> well_formed (fst (start_task_soon w tid func))"
  unfolding well_formed_def start_task_soon_def spawn_task_from_thread_def new_future_def Let_def
  by (auto simp: Future_def split: sum.splits if_splits) (metis less_Suc_eq)+

lemma wf_call: "well_formed w \<Longrightarrow> well_formed (fst (call w tid func))"
  using wf_start_task_soon[of w tid func]
  by (auto simp: call_def result_blocking_def Let_def wf_run_loop split: prod.splits sum.splits)


lemma wf_result_blocking: "well_formed w \<Longrightarrow> well_formed (fst (result_blocking w fid))"
  by (simp add: result_blocking_def Let_def wf_run_loop)

lemma invoke_callback_tasks: "tasks (invoke_callback tid fid w cb) = tasks w"
  by (cases cb)
     (auto simp: callback_def call_scope_cancel_def new_future_def scope_cancel_def Let_def
        task_done_def split: sum.splits option.splits)

lemma foldl_callbacks_tasks: "tasks (foldl (invoke_callback tid fid) w cbs) = tasks w"
  by (induction cbs arbitrary: w) (simp_all add: invoke_callback_tasks)

lemma cancel_tasks: "tasks (fst (cancel w tid fid)) = tasks w"
  by (auto simp: cancel_def cancel_raw_def invoke_callbacks_def foldl_callbacks_tasks Let_def)

lemma well_formed_kept:
  assumes "well_formed w" "keeps_refs w w'" "tasks w' = tasks w"
  shows "well_formed w'"
  using assms unfolding well_formed_def keeps_refs_def
  by simp (metis (no_types, lifting) less_le_trans)

lemma wf_cancel: "well_formed w \<Longrightarrow> well_formed (fst (cancel w tid fid))"
  by (rule well_formed_kept[OF _ kr_cancel cancel_tasks])

lemma wf_start_task: "well_formed w \<Longrightarrow> well_formed (fst (start_task w tid func))"
proof (cases "check_running w tid")
  case (Inl e)
  assume "well_formed w"
  then show ?thesis using Inl by (simp add: start_task_def)
next
  case (Inr u)
  assume wf: "well_formed w"
  let ?tsf = "next_future w" and ?f = "Suc (next_future w)"
  let ?w2 = "fst (new_future (fst (new_future w)))"
  let ?w4 = "spawn_task_from_thread (add_done_callback ?w2 tid ?f (TaskDoneCallback ?tsf)) func (Some ?tsf) ?f"
  have e: "fst (start_task w tid func) = fst (result_blocking ?w4 ?tsf)"
    using Inr by (simp add: start_task_def new_future_def Let_def split: prod.splits option.splits sum.splits)
  have "well_formed ?w4"
    using wf unfolding well_formed_def spawn_task_from_thread_def add_done_callback_def
      new_future_def Let_def
    by (auto simp: Future_def is_done_def finished_def split: if_splits) (metis less_Suc_eq less_SucI)+
  then show ?thesis unfolding e by (rule wf_result_blocking)
qed

lemma wf_wrap: "well_formed w \<Longrightarrow> well_formed (fst (wrap_async_context_manager w cm))"
  by (simp add: well_formed_def wrap_async_context_manager_def Let_def)

lemma wf_cm_enter: "well_formed w \<Longrightarrow> well_formed (fst (cm_enter w tid aid))"
proof -
  assume wf: "well_formed w"
  let ?ef = "next_future w"
  let ?w1 = "fst (new_future w)"
  let ?w2 = "?w1\<lparr>adapters := (adapters ?w1)(aid := (adapters ?w1 aid)\<lparr>enter_future := Some ?ef\<rparr>)\<rparr>"
  have 2: "well_formed ?w2"
    using wf unfolding well_formed_def new_future_def Let_def
    by (auto simp: Future_def split: if_splits) (metis less_Suc_eq)+
  obtain w3 r where st: "start_task_soon ?w2 tid (RunAsyncCM aid) = (w3, r)"
    by (cases "start_task_soon ?w2 tid (RunAsyncCM aid)")
  have 3: "well_formed w3" using wf_start_task_soon[OF 2, of tid "RunAsyncCM aid"] st by simp
  have 4: "well_formed (w3\<lparr>adapters := (adapters w3)(aid := (adapters w3 aid)\<lparr>exit_future := x\<rparr>)\<rparr>)" for x
    using 3 by (simp add: well_formed_def)
  show ?thesis
    using st 3 4 wf_result_blocking
    by (cases r) (simp_all add: cm_enter_def new_future_def Let_def)
qed

lemma wf_cm_exit: "well_formed w \<Longrightarrow> well_formed (fst (cm_exit w tid aid info))"
proof -
  assume wf: "well_formed w"
  let ?w1 = "w\<lparr>adapters := (adapters w)(aid := (adapters w aid)\<lparr>exit_exc_info := Some info\<rparr>)\<rparr>"
  have 1: "well_formed ?w1" using wf by (simp add: well_formed_def)
  show ?thesis
  proof (cases "exit_event (adapters ?w1 aid)")
    case None
    then show ?thesis using 1 by (simp add: cm_exit_def Let_def)
  next
    case (Some ev)
    obtain w2 r where c: "call ?w1 tid (EventSet ev) = (w2, r)" by (cases "call ?w1 tid (EventSet ev)")
    have 2: "well_formed w2" using wf_call[OF 1, of tid "EventSet ev"] c by simp
    show ?thesis
      using Some c 2 wf_result_blocking[OF 2]
      by (auto simp: cm_exit_def Let_def split: option.splits sum.splits)
  qed
qed

section \<open>What the end of the scope does is not seen\<close>

text \<open>
  The scope of a task is only cancelled for a cancelled future, and then the clauses of
  \<open>_call_func\<close> change nothing, whether the cancellation exception reaches them or the
  scope has absorbed it.
\<close>

lemma finish_of_cancelled_future:
  assumes "cancelled (futures w fid)"
  shows "call_func_finish w fid (Raised CancelledExc) = (w, None)"
    and "call_func_finish w fid (Returned v) = (w, None)"
    and "call_func_finish w fid (scope_exit w sid (Raised CancelledExc)) = (w, None)"
proof -
  have d: "is_done (futures w fid)" using assms by (auto simp: is_done_def cancelled_def)
  show 1: "call_func_finish w fid (Raised CancelledExc) = (w, None)"
    using cancel_future_done[OF d] by (simp add: call_func_finish_def)
  show 2: "call_func_finish w fid (Returned v) = (w, None)" for v
    using assms by (simp add: call_func_finish_def)
  show "call_func_finish w fid (scope_exit w sid (Raised CancelledExc)) = (w, None)"
    using 1 2 by (simp add: scope_exit_def)
qed

section \<open>An accepted call is run\<close>

text \<open>
  When \<open>_check_running\<close> lets the caller in, \<open>call\<close> with a plain function returns
  the function's value, whatever else the task group is running: no usage error is raised
  on a portal that is running.
\<close>

lemma accepted_call_returns:
  assumes "check_running w tid = Inr ()" and "well_formed w"
  shows "\<exists>w2. call w tid (PlainFunc v) = (w2, Some (Inr v)) \<and> advances w w2"
proof -
  let ?f = "next_future w"
  let ?T = "\<lparr>tstate = NotStarted (PlainFunc v), tfuture = ?f, tstatus = None\<rparr>"
  let ?ws = "spawn_task_from_thread (fst (new_future w)) (PlainFunc v) None ?f"
  let ?W0 = "?ws\<lparr>tasks := []\<rparr>"
  have c: "call w tid (PlainFunc v) = result_blocking ?ws ?f"
    using assms(1) by (simp add: call_def start_task_soon_def new_future_def Let_def)
  have ts: "tasks ?ws = tasks w @ [?T]"
    by (simp add: spawn_task_from_thread_def new_future_def Let_def)
  have W0: "futures ?W0 ?f = Future" "next_future ?W0 = Suc ?f"
    by (simp_all add: spawn_task_from_thread_def new_future_def Let_def)
  have a0: "advances w ?ws"
    by (auto simp: advances_def spawn_task_from_thread_def new_future_def Let_def)
  have p0: "private_future ?f ?W0"
    using assms(2)
    by (fastforce simp: private_future_def well_formed_def spawn_task_from_thread_def new_future_def
        Let_def Future_def)
  have fr: "\<forall>t\<in>set (tasks w). foreign ?f t"
    using assms(2) by (fastforce simp: well_formed_def foreign_def)
  obtain wa ba where ra: "run_tasks (tasks w) ?W0 = (wa, ba)" by (cases "run_tasks (tasks w) ?W0")
  have la: "leaves ?f ?W0 wa" using lv_run_tasks[OF fr ra] by simp
  have fa: "futures wa ?f = Future" "?f < next_future wa"
    using la p0 W0 by (auto simp: leaves_def private_future_def)
  define wb where "wb = wa\<lparr>futures := (futures wa)(?f := (futures wa ?f)\<lparr>fstate := FINISHED (Inr v)\<rparr>)\<rparr>"
  have cb: "call_func wa ?T = (wb, None)"
    by (simp add: call_func_def finish_fresh[OF fa(1)] task_exit_def wb_def)
  have fb: "fstate (futures wb ?f) = FINISHED (Inr v)" "?f < next_future wb"
    using fa(2) by (simp_all add: wb_def)
  have rr: "run_round ?ws = wb\<lparr>tasks := ba\<rparr>"
    using ra cb by (simp add: run_round_def ts run_tasks_append)
  let ?wr = "wb\<lparr>tasks := ba\<rparr>"
  let ?n = "3 * length (tasks ?ws)"
  have rl: "run_loop ?ws = run_rounds ?n ?wr"
    by (simp add: run_loop_def rr del: run_rounds.simps(2)) (simp add: rr)
  have ar: "advances ?wr (run_rounds ?n ?wr)" by (rule adv_run_rounds)
  have dr: "is_done (futures ?wr ?f)" "?f < next_future ?wr"
    using fb by (simp_all add: is_done_def finished_def)
  have ff: "fstate (futures (run_loop ?ws) ?f) = FINISHED (Inr v)"
    using adv_frozen[OF ar dr(2,1)] fb(1) by (simp add: rl)
  have "advances w (run_loop ?ws)" using advances_trans[OF a0 adv_run_loop] .
  then show ?thesis
    using c ff by (simp add: result_blocking_def Let_def result_def cancelled_def)
qed

end
